theory Spec2Isabelle
  imports Complex_Main "HOL-Library.While_Combinator"
begin

section \<open>Python errors\<close>

text \<open>
  The scripts signal failure by raising. Every raise that the modelled code can reach is a
  value of this type; a function that may raise returns \<open>pyerror + 'a\<close> with the error on
  the left.
\<close>

datatype pyerror =
    NameError string
  | ValueError
  | TypeError
  | Exception string

section \<open>Gridded fields\<close>

text \<open>
  A field is a dense array over (time, lat, lon), held as nested lists; a slab is one
  (lat, lon) array. Values are real numbers: rounding of the float arithmetic is not
  modelled. A field stands for the array after \<^verbatim>\<open>ivt(squeeze=1)\<close>, which has no axis of
  length one, so that in an operation with another array only the other array is ever
  stretched.
\<close>

type_synonym slab = "real list list"

type_synonym field3d = "slab list"

definition sub_slab :: "slab \<Rightarrow> slab \<Rightarrow> slab" where
  "sub_slab a b = map2 (map2 (-)) a b"

text \<open>
  numpy's broadcasting of the two-dimensional climatology against a field: an axis of
  the climatology must have the length of the field's axis or the length one, and an
  axis of length one is stretched, its only entry standing at every index of the
  field's axis. \<open>stretched xs i\<close> is the entry of \<open>xs\<close> that stands at index \<open>i\<close>, and
  \<open>mean_at m y x\<close> the value of the climatology that meets the grid point (y, x).
\<close>

definition fits :: "'a list \<Rightarrow> nat \<Rightarrow> bool" where
  "fits xs n = (length xs = n \<or> length xs = 1)"

definition stretched :: "'a list \<Rightarrow> nat \<Rightarrow> 'a" where
  "stretched xs i = (if length xs = 1 then xs ! 0 else xs ! i)"

definition mean_at :: "slab \<Rightarrow> nat \<Rightarrow> nat \<Rightarrow> real" where
  "mean_at m y x = stretched (stretched m y) x"

definition broadcastable :: "slab \<Rightarrow> slab \<Rightarrow> bool" where
  "broadcastable s m =
     (fits m (length s) \<and> list_all (\<lambda>y. fits (stretched m y) (length (s ! y))) [0..<length s])"

text \<open>
  \<^verbatim>\<open>ivt - ivt_mean\<close>: the climatology is subtracted from every time step, and shapes that
  cannot be broadcast raise \<^verbatim>\<open>ValueError\<close>.
\<close>

definition sub_clim :: "field3d \<Rightarrow> slab \<Rightarrow> pyerror + field3d" where
  "sub_clim ivt m =
     (if list_all (\<lambda>s. broadcastable s m) ivt
      then Inr (map (\<lambda>s. map (\<lambda>y. map (\<lambda>x. s ! y ! x - mean_at m y x)
                  [0..<length (s ! y)]) [0..<length s]) ivt)
      else Inl ValueError)"

text \<open>\<^verbatim>\<open>ivt - ivtrec\<close>: two fields of one shape.\<close>

definition sub_field :: "field3d \<Rightarrow> field3d \<Rightarrow> pyerror + field3d" where
  "sub_field a b =
     (if map (map length) a = map (map length) b then Inr (map2 sub_slab a b)
      else Inl ValueError)"

text \<open>The grid points of a field: the valid (time, lat, lon) indices.\<close>

definition in_field :: "field3d \<Rightarrow> nat \<Rightarrow> nat \<Rightarrow> nat \<Rightarrow> bool" where
  "in_field f t y x = (t < length f \<and> y < length (f ! t) \<and> x < length (f ! t ! y))"

section \<open>compute\_ivt-anomaly.py: the climatology path\<close>

text \<open>
  \<^verbatim>\<open>filterData_250(ivt, ivt_mean)\<close>, the function \<^verbatim>\<open>main\<close> calls. Both returned arrays are
  computed by the same expression \<^verbatim>\<open>ivt - ivt_mean\<close>; the rest of the function sets axes and
  attributes. The result is the triple (ivt, ivt\_rec, ivt\_ano).
\<close>

definition filterData_250 :: "field3d \<Rightarrow> slab \<Rightarrow> pyerror + (field3d \<times> field3d \<times> field3d)" where
  "filterData_250 ivt ivt_mean =
     (case sub_clim ivt ivt_mean of
        Inl e \<Rightarrow> Inl e
      | Inr ivtrec \<Rightarrow>
          (case sub_clim ivt ivt_mean of
             Inl e \<Rightarrow> Inl e
           | Inr ivtano \<Rightarrow> Inr (ivt, ivtrec, ivtano)))"

section \<open>compute\_ivt-anomaly.py: the reconstruction path\<close>

text \<open>A structuring element is a mask over a box of offsets.\<close>

type_synonym selem = "bool list list list"

text \<open>
  Modelled from the spec: \<^verbatim>\<open>funcs.get3DEllipse\<close> is imported from \<^verbatim>\<open>utils\<close>, which is not
  among the sources. The spec describes its result as the set of integer offsets
  satisfying an ellipsoid equation bounded by the half-extents: the offset (dt, dy, dx)
  of the box \<open>[-t..t] \<times> [-y..y] \<times> [-x..x]\<close> belongs to the element when
  \<open>(dt/t)\<^sup>2 + (dy/y)\<^sup>2 + (dx/x)\<^sup>2 \<le> 1\<close>. The spec gives no equation for a half-extent
  of zero; the element is only used with positive half-extents below.
\<close>

definition in_ellipsoid :: "int \<Rightarrow> int \<Rightarrow> int \<Rightarrow> int \<Rightarrow> int \<Rightarrow> int \<Rightarrow> bool" where
  "in_ellipsoid t y x dt dy dx =
     ((real_of_int dt / real_of_int t)\<^sup>2 + (real_of_int dy / real_of_int y)\<^sup>2
        + (real_of_int dx / real_of_int x)\<^sup>2 \<le> 1)"

definition get3DEllipse :: "int \<Rightarrow> int \<Rightarrow> int \<Rightarrow> selem" where
  "get3DEllipse t y x =
     map (\<lambda>dt. map (\<lambda>dy. map (\<lambda>dx. in_ellipsoid t y x dt dy dx) [- x..x]) [- y..y]) [- t..t]"

text \<open>\<^verbatim>\<open>np.ones(ele.shape)\<close>: the full box of the shape of \<open>ele\<close>.\<close>

definition ones_like :: "selem \<Rightarrow> selem" where
  "ones_like ele = map (map (map (\<lambda>_. True))) ele"

text \<open>
  Lines 171 to 176 of \<^verbatim>\<open>filterData\<close>: \<^verbatim>\<open>get3DEllipse(*kernel)\<close> takes the three half-extents,
  so a kernel of another length is a \<^verbatim>\<open>TypeError\<close>; then the element is replaced by the
  full box when \<^verbatim>\<open>kernel[0]>=10 or kernel[1]>=6\<close>.
\<close>

definition structuring_element :: "int list \<Rightarrow> pyerror + selem" where
  "structuring_element kern =
     (case kern of
        [t, y, x] \<Rightarrow>
          (let ele = get3DEllipse t y x
           in Inr (if 10 \<le> t \<or> 6 \<le> y then ones_like ele else ele))
      | _ \<Rightarrow> Inl TypeError)"

definition KERNEL :: "int list" where
  "KERNEL = [4]"

text \<open>
  Modelled from the spec: \<^verbatim>\<open>morphology.reconstruction\<close> is scikit-image's and is not among
  the sources. The spec: iteratively dilate the marker and clip to the raw field as an
  upper bound, repeating to a fixed point. The call \<^verbatim>\<open>reconstruction(lm, ivt,
  method='dilation')\<close> passes no structuring element, so the dilation takes the maximum
  over a grid point and its neighbours one step away along each axis, the neighbourhood
  being cut off at the borders of the grid. The loop is \<open>while_option\<close>: \<open>None\<close> says that
  no fixed point is reached.
\<close>

definition neighbours :: "field3d \<Rightarrow> nat \<Rightarrow> nat \<Rightarrow> nat \<Rightarrow> real list" where
  "neighbours f t y x =
     concat (map (\<lambda>t'. concat (map (\<lambda>y'. map (\<lambda>x'. f ! t' ! y' ! x')
         [x - 1..<min (length (f ! t' ! y')) (x + 2)])
         [y - 1..<min (length (f ! t')) (y + 2)]))
         [t - 1..<min (length f) (t + 2)])"

definition dilate :: "field3d \<Rightarrow> field3d" where
  "dilate f =
     map (\<lambda>t. map (\<lambda>y. map (\<lambda>x. fold max (neighbours f t y x) (f ! t ! y ! x))
         [0..<length (f ! t ! y)]) [0..<length (f ! t)]) [0..<length f]"

definition clip :: "field3d \<Rightarrow> field3d \<Rightarrow> field3d" where
  "clip f msk = map2 (map2 (map2 min)) f msk"

definition reconstruction_step :: "field3d \<Rightarrow> field3d \<Rightarrow> field3d" where
  "reconstruction_step msk marker = clip (dilate marker) msk"

definition reconstruction :: "field3d \<Rightarrow> field3d \<Rightarrow> (pyerror + field3d) option" where
  "reconstruction seed msk =
     (if map (map length) seed \<noteq> map (map length) msk then Some (Inl ValueError)
      else map_option Inr
             (while_option (\<lambda>marker. reconstruction_step msk marker \<noteq> marker)
                (reconstruction_step msk) seed))"

text \<open>
  Two quantities of the proof that the loop ends: the values a field takes at its grid
  points, and, for a finite set \<open>V\<close> of values, the number of pairs of a grid point and a
  value of \<open>V\<close> above the field's value there.
\<close>

definition points :: "field3d \<Rightarrow> real set" where
  "points f = {f ! t ! y ! x |t y x. in_field f t y x}"

definition deficit :: "real set \<Rightarrow> field3d \<Rightarrow> nat" where
  "deficit V m =
     sum_list (map (\<lambda>s. sum_list (map (\<lambda>r. sum_list (map (\<lambda>v. card {w \<in> V. v < w}) r)) s)) m)"

text \<open>
  Lines 187 to 191 and 220 of \<^verbatim>\<open>filterData\<close>: the reconstruction with the eroded field \<open>lm\<close>
  as its seed and the raw field as its mask, then \<^verbatim>\<open>ivtano=ivt-ivtrec\<close>. The result is
  the triple (ivt, ivt\_rec, ivt\_ano), or \<open>None\<close> when the reconstruction does not return.
\<close>

definition reconstruct_anomaly ::
  "field3d \<Rightarrow> field3d \<Rightarrow> (pyerror + (field3d \<times> field3d \<times> field3d)) option" where
  "reconstruct_anomaly ivt lm =
     (case reconstruction lm ivt of
        None \<Rightarrow> None
      | Some (Inl e) \<Rightarrow> Some (Inl e)
      | Some (Inr ivtrec) \<Rightarrow>
          (case sub_field ivt ivtrec of
             Inl e \<Rightarrow> Some (Inl e)
           | Inr ivtano \<Rightarrow> Some (Inr (ivt, ivtrec, ivtano))))"

text \<open>
  \<^verbatim>\<open>filterData(ivt, kernel)\<close>. The erosion is scikit-image's; it is a parameter of the model,
  called as in line 182 with the field and the structuring element.
\<close>

definition filterData ::
  "(field3d \<Rightarrow> selem \<Rightarrow> pyerror + field3d) \<Rightarrow> field3d \<Rightarrow> int list
     \<Rightarrow> (pyerror + (field3d \<times> field3d \<times> field3d)) option" where
  "filterData erosion ivt kern =
     (case structuring_element kern of
        Inl e \<Rightarrow> Some (Inl e)
      | Inr ele \<Rightarrow>
          (case erosion ivt ele of
             Inl e \<Rightarrow> Some (Inl e)
           | Inr lm \<Rightarrow> reconstruct_anomaly ivt lm))"

section \<open>compute\_ivt.py\<close>

text \<open>
  \<^verbatim>\<open>ivtdata=np.ma.sqrt(ufluxNV.data**2+vfluxNV.data**2)\<close>. Both components are read from
  the same file; a singleton level axis carries no data and is left out of the model.
  The argument of the masked square root is a sum of squares, so no element is masked.
  Two fields of one shape give the elementwise result; every other pair is reported as
  the \<^verbatim>\<open>ValueError\<close> numpy raises for shapes it cannot combine (the stretching of an axis
  of length one is not modelled).
\<close>

definition compute_ivt_main :: "field3d \<Rightarrow> field3d \<Rightarrow> pyerror + field3d" where
  "compute_ivt_main uflux vflux =
     (if map (map length) uflux = map (map length) vflux
      then Inr (map2 (map2 (map2 (\<lambda>u v. sqrt (u\<^sup>2 + v\<^sup>2)))) uflux vflux)
      else Inl ValueError)"

section \<open>detect\_ARs.py: the shape check and the saving loop\<close>

text \<open>
  Lines 209 to 213 of \<^verbatim>\<open>main\<close>, on the shapes of \<^verbatim>\<open>quNV\<close>, \<^verbatim>\<open>qvNV\<close> and \<^verbatim>\<open>ivtNV\<close>. A shape is
  the list of axis lengths, so \<^verbatim>\<open>np.ndim\<close> is its length.
\<close>

definition shape_check :: "nat list \<Rightarrow> nat list \<Rightarrow> nat list \<Rightarrow> pyerror + unit" where
  "shape_check qu qv ivt =
     (if length qu \<noteq> 3 \<or> length qv \<noteq> 3 then Inl (Exception ''<qu> and <qv> should be 3D data.'')
      else if qu \<noteq> qv \<or> ivt \<noteq> qu then Inl (Exception ''Data shape dismatch'')
      else Inr ())"

text \<open>
  \<^verbatim>\<open>main\<close> builds both flux fields as \<^verbatim>\<open>np.zeros(ivtNV.shape)\<close> (lines 205 and 206), so the
  check runs on three copies of the shape of the IVT field.
\<close>

definition main_shape_check :: "nat list \<Rightarrow> pyerror + unit" where
  "main_shape_check ivt_shape = shape_check ivt_shape ivt_shape ivt_shape"

text \<open>
  The two output files of one run. The record file is a list of lines, each the header
  or one record; every line holds at least its line break, so \<^verbatim>\<open>dfout.tell()==0\<close> on the
  file opened for appending says that the list is empty. The netCDF file is the list of
  what has been saved to it.
\<close>

datatype 'r csv_line = Header | Row 'r

datatype 'l nc_entry = Dims | LabelVar 'l | OtherVar string

record ('r, 'l) outputs =
  csv :: "'r csv_line list"
  nc :: "'l nc_entry list"

text \<open>\<^verbatim>\<open>result_df.to_csv(dfout, header=dfout.tell()==0, index=False)\<close>\<close>

definition to_csv :: "'r csv_line list \<Rightarrow> 'r list \<Rightarrow> 'r csv_line list" where
  "to_csv dfout result_df = dfout @ (if dfout = [] then [Header] else []) @ map Row result_df"

text \<open>
  The names a statement of the loop body can read: the local variables of \<^verbatim>\<open>main\<close> (every
  name the function assigns) and the names the module binds at top level.
\<close>

definition main_locals :: "string list" where
  "main_locals =
     [''IVT_FILE_NAME'', ''YEAR'', ''MONTH'', ''LABEL_FILE_OUT_NAME'', ''RECORD_FILE_OUT_NAME'',
      ''ivtNV'', ''ivtrecNV'', ''ivtanoNV'', ''quNV'', ''qvNV'', ''latax'', ''lonax'', ''timeax'',
      ''plot_dir'', ''abpath_out'', ''ncfout'', ''dfout'', ''finder_gen'', ''tidx'', ''timett'',
      ''label'', ''result_df'', ''timett_str'', ''slab'', ''slabano'', ''plot_vars'', ''titles'',
      ''iso'', ''figure'', ''jj'', ''ax'', ''pobj'', ''bmap'', ''plot_save_name'']"

definition module_globals :: "string list" where
  "module_globals =
     [''print_function'', ''OUTPUTDIR'', ''PLOT'', ''LAT1'', ''LAT2'', ''SHIFT_LON'', ''PARAM_DICT'',
      ''os'', ''sys'', ''np'', ''matplotlib'', ''plt'', ''Dataset'', ''time'', ''glob'',
      ''multiprocessing'', ''funcs'', ''plot'', ''plotAR'', ''findARsGen'', ''main'',
      ''time_start'', ''num'', ''mon'', ''SOURCEDIR'', ''RECORD_FILE'', ''abpath_in'',
      ''IVT_FILE_NAME'', ''IVT_FILE_NAME_mon'', ''pool'', ''time_end'']"

definition detect_scope :: "string list" where
  "detect_scope = main_locals @ module_globals"

text \<open>
  The loop of lines 253 to 262 over what the generator yields, each item a tuple
  \<^verbatim>\<open>(tidx, timett, label, result_df)\<close>. \<open>scope\<close> lists the names that are bound; reading
  another name raises \<^verbatim>\<open>NameError\<close>, and the files keep what was written before. The result
  is the state of the two files and the error that ended the loop, if any. The plots of
  lines 265 to 295 touch neither file and are left out.
\<close>

fun save_loop ::
  "string list \<Rightarrow> ('r, 'l) outputs \<Rightarrow> (nat \<times> 't \<times> 'l \<times> 'r list) list
     \<Rightarrow> ('r, 'l) outputs \<times> pyerror option" where
  "save_loop scope out [] = (out, None)"
| "save_loop scope out ((tidx, timett, label, result_df) # rest) =
     (let out1 = out\<lparr>csv := to_csv (csv out) result_df\<rparr>;
          out2 = out1\<lparr>nc := nc out1 @ [Dims, LabelVar label]\<rparr>
      in if ''angle'' \<notin> set scope then (out2, Some (NameError ''angle''))
         else
           (let out3 = out2\<lparr>nc := nc out2 @ [OtherVar ''angle'']\<rparr>
            in if ''cross'' \<notin> set scope then (out3, Some (NameError ''cross''))
               else save_loop scope (out3\<lparr>nc := nc out3 @ [OtherVar ''cross'']\<rparr>) rest))"

definition main_save ::
  "('r, 'l) outputs \<Rightarrow> (nat \<times> 't \<times> 'l \<times> 'r list) list \<Rightarrow> ('r, 'l) outputs \<times> pyerror option" where
  "main_save out yielded = save_loop detect_scope out yielded"

text \<open>
  \<^verbatim>\<open>main\<close> of detect\_ARs.py from the shape check on: the check of lines 209 to 213, then
  the saving loop.
\<close>

definition detect_main ::
  "nat list \<Rightarrow> ('r, 'l) outputs \<Rightarrow> (nat \<times> 't \<times> 'l \<times> 'r list) list
     \<Rightarrow> ('r, 'l) outputs \<times> pyerror option" where
  "detect_main ivt_shape out yielded =
     (case main_shape_check ivt_shape of
        Inl e \<Rightarrow> (out, Some e)
      | Inr ok \<Rightarrow> main_save out yielded)"

definition headers :: "'r csv_line list \<Rightarrow> nat" where
  "headers f = length (filter (\<lambda>l. l = Header) f)"

section \<open>Paths and the batch drivers\<close>

text \<open>
  Python's slices on a string of length \<open>n\<close>: a negative bound counts from the end and
  every bound is clipped to the string. \<open>slice_from s i\<close> is \<^verbatim>\<open>s[i:]\<close> and \<open>py_slice s i j\<close>
  is \<^verbatim>\<open>s[i:j]\<close>.
\<close>

definition py_index :: "nat \<Rightarrow> int \<Rightarrow> nat" where
  "py_index n k = (if k < 0 then nat (int n + k) else min (nat k) n)"

definition slice_from :: "'a list \<Rightarrow> int \<Rightarrow> 'a list" where
  "slice_from s i = drop (py_index (length s) i) s"

definition py_slice :: "'a list \<Rightarrow> int \<Rightarrow> int \<Rightarrow> 'a list" where
  "py_slice s i j =
     take (py_index (length s) j - py_index (length s) i) (drop (py_index (length s) i) s)"

text \<open>\<^verbatim>\<open>os.path.join(a, b)\<close>, \<^verbatim>\<open>os.path.split(p)[1]\<close> and \<^verbatim>\<open>os.path.splitext(p)[0]\<close> on POSIX.\<close>

definition path_join :: "string \<Rightarrow> string \<Rightarrow> string" where
  "path_join a b =
     (if b \<noteq> [] \<and> hd b = CHR ''/'' then b
      else if a = [] \<or> last a = CHR ''/'' then a @ b
      else a @ ''/'' @ b)"

definition basename :: "string \<Rightarrow> string" where
  "basename p = rev (takeWhile (\<lambda>c. c \<noteq> CHR ''/'') (rev p))"

definition splitext_root :: "string \<Rightarrow> string" where
  "splitext_root fname =
     (let root = rev (drop 1 (dropWhile (\<lambda>c. c \<noteq> CHR ''.'') (rev fname)))
      in if CHR ''.'' \<in> set fname \<and> list_ex (\<lambda>c. c \<noteq> CHR ''.'') root then root else fname)"

definition ends_with :: "string \<Rightarrow> string \<Rightarrow> bool" where
  "ends_with suf s = (length suf \<le> length s \<and> drop (length s - length suf) s = suf)"

text \<open>
  The loop both drivers run before they start the pool: an input whose expected output
  exists is skipped, every other input is appended to the work list.
\<close>

fun skip_existing :: "(string \<Rightarrow> bool) \<Rightarrow> (string \<Rightarrow> string) \<Rightarrow> string list \<Rightarrow> string list" where
  "skip_existing exists expected [] = []"
| "skip_existing exists expected (file # rest) =
     (if exists (expected file) then skip_existing exists expected rest
      else file # skip_existing exists expected rest)"

text \<open>
  The files on disk are a map from paths to contents. A worker runs \<^verbatim>\<open>main\<close> on one input
  and, unless \<^verbatim>\<open>main\<close> raises first (\<open>None\<close>), writes the result to the output path of that
  input. \<^verbatim>\<open>pool.map(main, filename)\<close> runs one worker for every input of the work list.
\<close>

fun pool_map ::
  "(string \<Rightarrow> 'c option) \<Rightarrow> (string \<Rightarrow> string) \<Rightarrow> (string \<rightharpoonup> 'c) \<Rightarrow> string list \<Rightarrow> (string \<rightharpoonup> 'c)" where
  "pool_map compute output disk [] = disk"
| "pool_map compute output disk (file # rest) =
     pool_map compute output
       (case compute file of None \<Rightarrow> disk | Some c \<Rightarrow> disk(output file \<mapsto> c)) rest"

text \<open>trace\_ARs.py: lines 32, 77 to 78 and 134 (\<^verbatim>\<open>main\<close>), lines 154 to 165 (driver).\<close>

definition trace_OUTPUTDIR :: string where
  "trace_OUTPUTDIR = ''/home/jingzhao/wangbp/era5/AR_TEST/THR/tracks/''"

definition trace_expected :: "string \<Rightarrow> string" where
  "trace_expected file = path_join trace_OUTPUTDIR (''ar_tracks_'' @ slice_from file (- 18))"

definition trace_output :: "string \<Rightarrow> string" where
  "trace_output filename =
     path_join trace_OUTPUTDIR (''ar_tracks_'' @ py_slice filename (- 18) (- 4) @ ''.csv'')"

definition trace_work_list :: "(string \<rightharpoonup> 'c) \<Rightarrow> string list \<Rightarrow> string list" where
  "trace_work_list disk filelist = skip_existing (\<lambda>p. disk p \<noteq> None) trace_expected filelist"

definition trace_driver :: "(string \<Rightarrow> 'c option) \<Rightarrow> (string \<rightharpoonup> 'c) \<Rightarrow> string list \<Rightarrow> (string \<rightharpoonup> 'c)" where
  "trace_driver compute disk filelist =
     pool_map compute trace_output disk (trace_work_list disk filelist)"

text \<open>
  compute\_ivt-anomaly.py: lines 52, 250 to 255 (\<^verbatim>\<open>main\<close>), line 293 (the inputs) and lines
  295 to 305 (driver).
\<close>

definition anomaly_OUTPUTDIR :: string where
  "anomaly_OUTPUTDIR = ''/home/jingzhao/wangbp/era5/ivt250_summer_mon/''"

definition IVT_FILE :: "string list" where
  "IVT_FILE =
     [''/home/jingzhao/wangbp/era5/ivt_summer_mon/era5_ivt_201108.nc'',
      ''/home/jingzhao/wangbp/era5/ivt_summer_mon/era5_ivt_201508.nc'']"

definition anomaly_expected :: "string \<Rightarrow> string" where
  "anomaly_expected file =
     path_join anomaly_OUTPUTDIR (py_slice file (- 18) (- 3) @ ''-ano-250.nc'')"

definition anomaly_output :: "string \<Rightarrow> string" where
  "anomaly_output file =
     path_join anomaly_OUTPUTDIR (splitext_root (basename file) @ ''-ano-250.nc'')"

definition anomaly_work_list :: "(string \<rightharpoonup> 'c) \<Rightarrow> string list" where
  "anomaly_work_list disk = skip_existing (\<lambda>p. disk p \<noteq> None) anomaly_expected IVT_FILE"

definition anomaly_driver :: "(string \<Rightarrow> 'c option) \<Rightarrow> (string \<rightharpoonup> 'c) \<Rightarrow> (string \<rightharpoonup> 'c)" where
  "anomaly_driver compute disk = pool_map compute anomaly_output disk (anomaly_work_list disk)"

section \<open>trace\_ARs.py: the track filter\<close>

text \<open>
  Modelled from the spec: the track objects are those of \<^verbatim>\<open>ipart.AR_tracer\<close>, which is not
  among the sources. A record of the table carries its time, in hours, and its relaxed
  flag; the other columns play no part in the filter. A track is a time-ordered list of
  records with at least one member.
\<close>

record ar_record =
  time :: int
  is_relaxed :: bool

datatype track = Track ar_record "ar_record list"

fun members :: "track \<Rightarrow> ar_record list" where
  "members (Track r rs) = r # rs"

definition duration :: "track \<Rightarrow> int" where
  "duration tr = time (last (members tr)) - time (hd (members tr))"

definition nonrelax_count :: "track \<Rightarrow> nat" where
  "nonrelax_count tr = length (filter (\<lambda>r. \<not> is_relaxed r) (members tr))"

text \<open>
  Modelled from the spec: \<^verbatim>\<open>filterTracks\<close> is imported from \<^verbatim>\<open>ipart.AR_tracer\<close>, which is
  not among the sources. The spec: duration is the last member's time minus the first
  member's time, the count is that of the members that are not relaxed, and a track is
  kept if and only if duration \<open>\<ge>\<close> min\_duration and count \<open>\<ge>\<close> min\_nonrelax; the order of the
  tracks is kept.
\<close>

definition filterTracks :: "track list \<Rightarrow> int \<Rightarrow> nat \<Rightarrow> track list" where
  "filterTracks track_list min_duration min_nonrelax =
     filter (\<lambda>tr. min_duration \<le> duration tr \<and> min_nonrelax \<le> nonrelax_count tr) track_list"

text \<open>Lines 51, 54 and 97 of trace\_ARs.py: the call of \<^verbatim>\<open>main\<close> with the two globals.\<close>

definition MIN_DURATION :: int where
  "MIN_DURATION = 24"

definition MIN_NONRELAX :: nat where
  "MIN_NONRELAX = 2"

definition main_filter :: "track list \<Rightarrow> track list" where
  "main_filter track_list = filterTracks track_list MIN_DURATION MIN_NONRELAX"

section \<open>Pointwise facts about the array operations\<close>

lemma sub_clim_Inr:
  assumes "sub_clim ivt m = Inr r"
  shows "map (map length) r = map (map length) ivt"
    and "in_field ivt t y x \<Longrightarrow> r ! t ! y ! x = ivt ! t ! y ! x - mean_at m y x"
proof -
  from assms have r: "r = map (\<lambda>s. map (\<lambda>y. map (\<lambda>x. s ! y ! x - mean_at m y x)
                  [0..<length (s ! y)]) [0..<length s]) ivt"
    by (auto simp: sub_clim_def split: if_splits)
  show "map (map length) r = map (map length) ivt"
    unfolding r by (auto simp: map_upt_eqI intro!: nth_equalityI)
  show "r ! t ! y ! x = ivt ! t ! y ! x - mean_at m y x" if "in_field ivt t y x"
    using that unfolding r in_field_def by simp
qed

lemma sub_clim_returns:
  "(\<exists>r. sub_clim ivt m = Inr r) \<longleftrightarrow> list_all (\<lambda>s. broadcastable s m) ivt"
  by (simp add: sub_clim_def)

lemma mean_at_same_shape:
  assumes "y < length m" and "x < length (m ! y)"
  shows "mean_at m y x = m ! y ! x"
  using assms by (auto simp: mean_at_def stretched_def)

lemma map2_rows_length:
  assumes "map length a = map length b"
  shows "map length (map2 (map2 f) a b) = map length a"
proof (rule nth_equalityI)
  from assms have len: "length a = length b"
    by (rule map_eq_imp_length_eq)
  then show "length (map length (map2 (map2 f) a b)) = length (map length a)"
    by simp
  fix i
  assume "i < length (map length (map2 (map2 f) a b))"
  then have i: "i < length a" "i < length b"
    using len by simp_all
  with assms have "length (a ! i) = length (b ! i)"
    by (metis nth_map)
  then show "map length (map2 (map2 f) a b) ! i = map length a ! i"
    using i by simp
qed

lemma map2_field_shape:
  assumes "map (map length) a = map (map length) b"
  shows "map (map length) (map2 (map2 (map2 f)) a b) = map (map length) a"
proof (rule nth_equalityI)
  from assms have len: "length a = length b"
    by (rule map_eq_imp_length_eq)
  then show "length (map (map length) (map2 (map2 (map2 f)) a b)) = length (map (map length) a)"
    by simp
  fix i
  assume "i < length (map (map length) (map2 (map2 (map2 f)) a b))"
  then have i: "i < length a" "i < length b"
    using len by simp_all
  with assms have "map length (a ! i) = map length (b ! i)"
    by (metis nth_map)
  then have "map length (map2 (map2 f) (a ! i) (b ! i)) = map length (a ! i)"
    by (rule map2_rows_length)
  then show "map (map length) (map2 (map2 (map2 f)) a b) ! i = map (map length) a ! i"
    using i by simp
qed

lemma same_shape_lengths:
  assumes "map (map length) a = map (map length) b"
  shows "length a = length b"
    and "t < length a \<Longrightarrow> length (a ! t) = length (b ! t)"
    and "t < length a \<Longrightarrow> y < length (a ! t) \<Longrightarrow> length (a ! t ! y) = length (b ! t ! y)"
proof -
  show len: "length a = length b"
    using assms by (rule map_eq_imp_length_eq)
  show leny: "length (a ! t) = length (b ! t)" if "t < length a"
  proof -
    from assms that len have "map length (a ! t) = map length (b ! t)"
      by (metis nth_map)
    then show ?thesis
      by (rule map_eq_imp_length_eq)
  qed
  show "length (a ! t ! y) = length (b ! t ! y)" if "t < length a" and "y < length (a ! t)"
  proof -
    from assms that(1) len have "map length (a ! t) = map length (b ! t)"
      by (metis nth_map)
    with that(2) leny[OF that(1)] show ?thesis
      by (metis nth_map)
  qed
qed

lemma in_field_same_shape:
  assumes "map (map length) a = map (map length) b"
  shows "in_field a t y x \<longleftrightarrow> in_field b t y x"
  using same_shape_lengths[OF assms] same_shape_lengths[OF assms[symmetric]]
  unfolding in_field_def by metis

lemma map2_field_nth:
  assumes "map (map length) a = map (map length) b" and "in_field a t y x"
  shows "map2 (map2 (map2 f)) a b ! t ! y ! x = f (a ! t ! y ! x) (b ! t ! y ! x)"
proof -
  from assms(2) have t: "t < length a" and y: "y < length (a ! t)" and x: "x < length (a ! t ! y)"
    by (simp_all add: in_field_def)
  note len = same_shape_lengths[OF assms(1)]
  show ?thesis
    using t y x len(1) len(2)[OF t] len(3)[OF t y] by simp
qed

lemma sub_field_Inr:
  assumes "sub_field a b = Inr r"
  shows "map (map length) a = map (map length) b"
    and "in_field a t y x \<Longrightarrow> r ! t ! y ! x = a ! t ! y ! x - b ! t ! y ! x"
proof -
  from assms show shp: "map (map length) a = map (map length) b"
    by (auto simp: sub_field_def split: if_splits)
  from assms have r: "r = map2 (map2 (map2 (-))) a b"
    by (auto simp: sub_field_def sub_slab_def split: if_splits)
  show "r ! t ! y ! x = a ! t ! y ! x - b ! t ! y ! x" if "in_field a t y x"
    unfolding r using shp that by (rule map2_field_nth)
qed

lemma filterData_250_Inr:
  assumes "filterData_250 ivt ivt_mean = Inr (raw, bg, ano)"
  shows "raw = ivt" and "bg = ano" and "sub_clim ivt ivt_mean = Inr ano"
  using assms by (auto simp: filterData_250_def split: sum.splits)

lemma filterData_250_returns:
  assumes "list_all (\<lambda>s. broadcastable s ivt_mean) ivt"
  shows "\<exists>ano. filterData_250 ivt ivt_mean = Inr (ivt, ano, ano)"
  using assms by (simp add: filterData_250_def sub_clim_def)

section \<open>The reconstruction reaches a fixed point under the raw field\<close>
lemma points_finite: "finite (points f)"
proof -
  have "points f \<subseteq> set (concat (concat f))"
    unfolding points_def in_field_def by (auto simp: set_concat) (metis nth_mem)
  then show ?thesis
    by (rule finite_subset) simp
qed

lemma fold_max_ge: "c \<le> fold max ns (c :: real)"
  by (induction ns arbitrary: c) (auto intro: order_trans[OF max.cobounded2])

lemma fold_max_in: "fold max ns (c :: real) \<in> insert c (set ns)"
proof (induction ns arbitrary: c)
  case Nil
  then show ?case by simp
next
  case (Cons n ns)
  have "max n c = n \<or> max n c = c"
    by (auto simp: max_def)
  with Cons[of "max n c"] show ?case
    by auto
qed

lemma neighbours_points: "set (neighbours f t y x) \<subseteq> points f"
proof
  fix v
  assume "v \<in> set (neighbours f t y x)"
  then obtain t' y' x' where "v = f ! t' ! y' ! x'" and "t' < length f"
    and "y' < length (f ! t')" and "x' < length (f ! t' ! y')"
    unfolding neighbours_def by (auto simp: set_concat)
  then show "v \<in> points f"
    unfolding points_def in_field_def by blast
qed

lemma dilate_shape: "map (map length) (dilate f) = map (map length) f"
proof (rule nth_equalityI)
  show "length (map (map length) (dilate f)) = length (map (map length) f)"
    by (simp add: dilate_def)
  fix t
  assume "t < length (map (map length) (dilate f))"
  then have t: "t < length f"
    by (simp add: dilate_def)
  have "map length (dilate f ! t) = map length (f ! t)"
  proof (rule nth_equalityI)
    show "length (map length (dilate f ! t)) = length (map length (f ! t))"
      using t by (simp add: dilate_def)
    fix y
    assume "y < length (map length (dilate f ! t))"
    then have "y < length (f ! t)"
      using t by (simp add: dilate_def)
    then show "map length (dilate f ! t) ! y = map length (f ! t) ! y"
      using t by (simp add: dilate_def)
  qed
  then show "map (map length) (dilate f) ! t = map (map length) f ! t"
    using t by (simp add: dilate_def)
qed

lemma dilate_nth:
  assumes "in_field f t y x"
  shows "dilate f ! t ! y ! x = fold max (neighbours f t y x) (f ! t ! y ! x)"
  using assms unfolding dilate_def in_field_def by simp

lemma step_shape:
  assumes "map (map length) m = map (map length) msk"
  shows "map (map length) (reconstruction_step msk m) = map (map length) msk"
proof -
  have shp: "map (map length) (dilate m) = map (map length) msk"
    using assms by (simp only: dilate_shape)
  have "map (map length) (map2 (map2 (map2 min)) (dilate m) msk) = map (map length) (dilate m)"
    using shp by (rule map2_field_shape)
  then show ?thesis
    unfolding reconstruction_step_def clip_def using shp by (rule trans)
qed

lemma step_nth:
  assumes "map (map length) m = map (map length) msk" and "in_field msk t y x"
  shows "reconstruction_step msk m ! t ! y ! x
           = min (fold max (neighbours m t y x) (m ! t ! y ! x)) (msk ! t ! y ! x)"
proof -
  have shp: "map (map length) (dilate m) = map (map length) msk"
    using assms(1) by (simp only: dilate_shape)
  from assms(2) have inm: "in_field m t y x"
    using in_field_same_shape[OF assms(1)] by blast
  then have ind: "in_field (dilate m) t y x"
    using in_field_same_shape[OF dilate_shape[of m]] by blast
  have "map2 (map2 (map2 min)) (dilate m) msk ! t ! y ! x
          = min (dilate m ! t ! y ! x) (msk ! t ! y ! x)"
    using shp ind by (rule map2_field_nth)
  then show ?thesis
    unfolding reconstruction_step_def clip_def by (simp only: dilate_nth[OF inm])
qed

lemma step_le_mask:
  assumes "map (map length) m = map (map length) msk" and "in_field msk t y x"
  shows "reconstruction_step msk m ! t ! y ! x \<le> msk ! t ! y ! x"
  unfolding step_nth[OF assms] by (rule min.cobounded2)

lemma step_ge:
  assumes "map (map length) m = map (map length) msk" and "in_field msk t y x"
    and "m ! t ! y ! x \<le> msk ! t ! y ! x"
  shows "m ! t ! y ! x \<le> reconstruction_step msk m ! t ! y ! x"
  unfolding step_nth[OF assms(1,2)]
  using assms(3) fold_max_ge[of "m ! t ! y ! x" "neighbours m t y x"] by (rule min.boundedI[rotated])

lemma step_points:
  assumes "map (map length) m = map (map length) msk" and "in_field msk t y x"
  shows "reconstruction_step msk m ! t ! y ! x \<in> points m \<union> points msk"
proof -
  from assms(2) have inm: "in_field m t y x"
    using in_field_same_shape[OF assms(1)] by blast
  then have "m ! t ! y ! x \<in> points m"
    unfolding points_def by blast
  with fold_max_in[of "neighbours m t y x" "m ! t ! y ! x"] neighbours_points[of m t y x]
  have a: "fold max (neighbours m t y x) (m ! t ! y ! x) \<in> points m"
    by auto
  from assms(2) have b: "msk ! t ! y ! x \<in> points msk"
    unfolding points_def by blast
  have "min (fold max (neighbours m t y x) (m ! t ! y ! x)) (msk ! t ! y ! x)
          = fold max (neighbours m t y x) (m ! t ! y ! x)
        \<or> min (fold max (neighbours m t y x) (m ! t ! y ! x)) (msk ! t ! y ! x) = msk ! t ! y ! x"
    by (simp add: min_def)
  with a b show ?thesis
    unfolding step_nth[OF assms] by auto
qed

lemma field_rel_intro:
  assumes shp: "map (map length) a = map (map length) b"
    and pt: "\<And>t y x. in_field a t y x \<Longrightarrow> R (a ! t ! y ! x) (b ! t ! y ! x)"
  shows "list_all2 (list_all2 (list_all2 R)) a b"
proof (rule list_all2_all_nthI)
  note len = same_shape_lengths[OF shp]
  show "length a = length b"
    by (rule len(1))
  fix t
  assume t: "t < length a"
  show "list_all2 (list_all2 R) (a ! t) (b ! t)"
  proof (rule list_all2_all_nthI)
    show "length (a ! t) = length (b ! t)"
      using t by (rule len(2))
    fix y
    assume y: "y < length (a ! t)"
    show "list_all2 R (a ! t ! y) (b ! t ! y)"
    proof (rule list_all2_all_nthI)
      show "length (a ! t ! y) = length (b ! t ! y)"
        using t y by (rule len(3))
      fix x
      assume "x < length (a ! t ! y)"
      with t y have "in_field a t y x"
        by (simp add: in_field_def)
      then show "R (a ! t ! y ! x) (b ! t ! y ! x)"
        by (rule pt)
    qed
  qed
qed

lemma sum_list_rel:
  fixes h :: "'a \<Rightarrow> nat"
  assumes rel: "list_all2 R xs ys"
    and mono: "\<And>x y. R x y \<Longrightarrow> h y \<le> h x"
    and strict: "\<And>x y. R x y \<Longrightarrow> x \<noteq> y \<Longrightarrow> h y < h x"
  shows "sum_list (map h ys) \<le> sum_list (map h xs)
         \<and> (xs \<noteq> ys \<longrightarrow> sum_list (map h ys) < sum_list (map h xs))"
  using rel
proof (induction rule: list_all2_induct)
  case Nil
  then show ?case by simp
next
  case (Cons x xs y ys)
  from Cons.hyps(1) have le: "h y \<le> h x"
    by (rule mono)
  show ?case
  proof (cases "x = y")
    case True
    with Cons.IH show ?thesis
      by auto
  next
    case False
    with Cons.hyps(1) have "h y < h x"
      by (rule strict)
    with Cons.IH show ?thesis
      by auto
  qed
qed

lemma rank_mono:
  assumes "finite V" and "x \<le> y"
  shows "card {w \<in> V. y < w} \<le> card {w \<in> V. (x :: real) < w}"
  using assms by (intro card_mono) auto

lemma rank_strict:
  assumes "finite V" and "x < y" and "y \<in> V"
  shows "card {w \<in> V. y < w} < card {w \<in> V. (x :: real) < w}"
  using assms by (intro psubset_card_mono) auto

lemma deficit_decreases:
  assumes fin: "finite V"
    and rel: "list_all2 (list_all2 (list_all2 (\<lambda>x y. x \<le> y \<and> y \<in> V))) m m'"
    and neq: "m \<noteq> m'"
  shows "deficit V m' < deficit V m"
proof -
  let ?R = "\<lambda>x y. x \<le> y \<and> y \<in> V"
  let ?h = "\<lambda>v. card {w \<in> V. v < w}"
  have row: "sum_list (map ?h r') \<le> sum_list (map ?h r)
         \<and> (r \<noteq> r' \<longrightarrow> sum_list (map ?h r') < sum_list (map ?h r))"
    if "list_all2 ?R r r'" for r r'
    using that
  proof (rule sum_list_rel)
    show "?h y \<le> ?h x" if "?R x y" for x y
      using fin that by (simp add: rank_mono)
    show "?h y < ?h x" if "?R x y" and "x \<noteq> y" for x y
      using fin that by (simp add: rank_strict)
  qed
  let ?h2 = "\<lambda>r. sum_list (map ?h r)"
  have slab: "sum_list (map ?h2 s') \<le> sum_list (map ?h2 s)
         \<and> (s \<noteq> s' \<longrightarrow> sum_list (map ?h2 s') < sum_list (map ?h2 s))"
    if "list_all2 (list_all2 ?R) s s'" for s s'
    using that
  proof (rule sum_list_rel)
    show "?h2 y \<le> ?h2 x" if "list_all2 ?R x y" for x y
      using row[OF that] by blast
    show "?h2 y < ?h2 x" if "list_all2 ?R x y" and "x \<noteq> y" for x y
      using row[OF that(1)] that(2) by blast
  qed
  let ?h3 = "\<lambda>s. sum_list (map ?h2 s)"
  have "sum_list (map ?h3 m') \<le> sum_list (map ?h3 m)
         \<and> (m \<noteq> m' \<longrightarrow> sum_list (map ?h3 m') < sum_list (map ?h3 m))"
    using rel
  proof (rule sum_list_rel)
    show "?h3 y \<le> ?h3 x" if "list_all2 (list_all2 ?R) x y" for x y
      using slab[OF that] by blast
    show "?h3 y < ?h3 x" if "list_all2 (list_all2 ?R) x y" and "x \<noteq> y" for x y
      using slab[OF that(1)] that(2) by blast
  qed
  with neq show ?thesis
    unfolding deficit_def by blast
qed

lemma reconstruction_loop_returns:
  assumes shp: "map (map length) seed = map (map length) msk"
  shows "\<exists>r. while_option (\<lambda>marker. reconstruction_step msk marker \<noteq> marker)
               (reconstruction_step msk) seed = Some r"
proof -
  let ?b = "\<lambda>marker. reconstruction_step msk marker \<noteq> marker"
  let ?c = "reconstruction_step msk"
  define V where "V = points seed \<union> points msk"
  define P where "P m \<longleftrightarrow> map (map length) m = map (map length) msk
      \<and> (\<forall>t y x. in_field msk t y x \<longrightarrow> m ! t ! y ! x \<le> msk ! t ! y ! x \<and> m ! t ! y ! x \<in> V)"
    for m
  have fin: "finite V"
    unfolding V_def by (simp add: points_finite)
  have mskV: "points msk \<subseteq> V"
    unfolding V_def by simp
  have after: "P (?c m)" if shape: "map (map length) m = map (map length) msk"
    and inV: "points m \<subseteq> V" for m
    unfolding P_def
  proof (intro conjI allI impI)
    show "map (map length) (?c m) = map (map length) msk"
      using shape by (rule step_shape)
    fix t y x
    assume inside: "in_field msk t y x"
    show "?c m ! t ! y ! x \<le> msk ! t ! y ! x"
      using shape inside by (rule step_le_mask)
    from step_points[OF shape inside] inV mskV show "?c m ! t ! y ! x \<in> V"
      by blast
  qed
  have pointsP: "points m \<subseteq> V" if "P m" for m
  proof
    fix v
    assume "v \<in> points m"
    then obtain t y x where v: "v = m ! t ! y ! x" and "in_field m t y x"
      unfolding points_def by blast
    with that have "in_field msk t y x"
      using in_field_same_shape[of m msk] unfolding P_def by blast
    with that v show "v \<in> V"
      unfolding P_def by blast
  qed
  have step: "P (?c m) \<and> deficit V (?c m) < deficit V m" if Pm: "P m" and b: "?b m" for m
  proof
    from Pm have shape: "map (map length) m = map (map length) msk"
      unfolding P_def by blast
    show Pc: "P (?c m)"
      using shape pointsP[OF Pm] by (rule after)
    have "list_all2 (list_all2 (list_all2 (\<lambda>x y. x \<le> y \<and> y \<in> V))) m (?c m)"
    proof (rule field_rel_intro)
      show "map (map length) m = map (map length) (?c m)"
        using shape step_shape[OF shape] by simp
      fix t y x
      assume "in_field m t y x"
      then have inside: "in_field msk t y x"
        using in_field_same_shape[OF shape] by blast
      with Pm have le: "m ! t ! y ! x \<le> msk ! t ! y ! x"
        unfolding P_def by blast
      from Pc inside have "?c m ! t ! y ! x \<in> V"
        unfolding P_def by blast
      with step_ge[OF shape inside le]
      show "m ! t ! y ! x \<le> ?c m ! t ! y ! x \<and> ?c m ! t ! y ! x \<in> V"
        by blast
    qed
    with fin show "deficit V (?c m) < deficit V m"
      using b by (intro deficit_decreases) auto
  qed
  show ?thesis
  proof (cases "?b seed")
    case False
    then have "while_option ?b ?c seed = Some seed"
      by (subst while_option_unfold) simp
    then show ?thesis
      by blast
  next
    case True
    have "points seed \<subseteq> V"
      unfolding V_def by simp
    with shp have "P (?c seed)"
      by (rule after)
    with step have "\<exists>r. while_option ?b ?c (?c seed) = Some r"
      by (rule measure_while_option_Some[where P = P and f = "deficit V"])
    moreover from True have "while_option ?b ?c seed = while_option ?b ?c (?c seed)"
      by (subst while_option_unfold) simp
    ultimately show ?thesis
      by simp
  qed
qed

lemma reconstruction_loop_result:
  assumes shp: "map (map length) seed = map (map length) msk"
    and run: "while_option (\<lambda>marker. reconstruction_step msk marker \<noteq> marker)
               (reconstruction_step msk) seed = Some r"
  shows "map (map length) r = map (map length) msk" and "reconstruction_step msk r = r"
proof -
  show shape: "map (map length) r = map (map length) msk"
    using step_shape run shp
    by (rule while_option_rule[where P = "\<lambda>m. map (map length) m = map (map length) msk"])
  from while_option_stop[OF run] show "reconstruction_step msk r = r"
    by simp
qed

lemma reconstruction_returns:
  "\<exists>res. reconstruction seed msk = Some res"
proof (cases "map (map length) seed = map (map length) msk")
  case True
  from reconstruction_loop_returns[OF True] show ?thesis
    using True by (auto simp: reconstruction_def)
next
  case False
  then show ?thesis
    by (simp add: reconstruction_def)
qed

lemma reconstruction_Inr:
  assumes "reconstruction seed msk = Some (Inr r)"
  shows "map (map length) r = map (map length) msk"
    and "in_field msk t y x \<Longrightarrow> r ! t ! y ! x \<le> msk ! t ! y ! x"
proof -
  from assms have shp: "map (map length) seed = map (map length) msk"
    and run: "while_option (\<lambda>marker. reconstruction_step msk marker \<noteq> marker)
               (reconstruction_step msk) seed = Some r"
    by (auto simp: reconstruction_def split: if_splits)
  note res = reconstruction_loop_result[OF shp run]
  show "map (map length) r = map (map length) msk"
    by (rule res(1))
  show "r ! t ! y ! x \<le> msk ! t ! y ! x" if "in_field msk t y x"
    using step_le_mask[OF res(1) that] unfolding res(2) .
qed

lemma reconstruction_same_shape:
  assumes "map (map length) seed = map (map length) msk"
  shows "\<exists>r. reconstruction seed msk = Some (Inr r)"
  using reconstruction_loop_returns[OF assms] assms by (auto simp: reconstruction_def)

section \<open>The background and anomaly decomposition\<close>

lemma filterData_returns: "\<exists>res. filterData erosion ivt kern = Some res"
proof (cases "structuring_element kern")
  case (Inl e)
  then show ?thesis
    by (simp add: filterData_def)
next
  case (Inr ele)
  show ?thesis
  proof (cases "erosion ivt ele")
    case (Inl e)
    with Inr show ?thesis
      by (simp add: filterData_def)
  next
    case lm: (Inr lm)
    from reconstruction_returns[of lm ivt] obtain res where "reconstruction lm ivt = Some res"
      by blast
    then have "\<exists>res'. reconstruct_anomaly ivt lm = Some res'"
      by (cases res; cases "sub_field ivt (projr res)") (simp_all add: reconstruct_anomaly_def)
    with Inr lm show ?thesis
      by (simp add: filterData_def)
  qed
qed

lemma filterData_Inr:
  assumes "filterData erosion ivt kern = Some (Inr (raw, bg, ano))"
  shows "raw = ivt" and "\<exists>lm. reconstruction lm ivt = Some (Inr bg)"
    and "sub_field ivt bg = Inr ano"
  using assms
  by (auto simp: filterData_def reconstruct_anomaly_def split: sum.splits option.splits)

lemma filterData_decomposes:
  assumes "structuring_element kern = Inr ele" and "erosion ivt ele = Inr lm"
    and "map (map length) lm = map (map length) ivt"
  shows "\<exists>bg ano. filterData erosion ivt kern = Some (Inr (ivt, bg, ano))"
proof -
  from reconstruction_same_shape[OF assms(3)] obtain bg where
    bg: "reconstruction lm ivt = Some (Inr bg)"
    by blast
  from reconstruction_Inr(1)[OF bg] have "map (map length) ivt = map (map length) bg"
    by simp
  then have "sub_field ivt bg = Inr (map2 sub_slab ivt bg)"
    by (simp add: sub_field_def)
  with assms(1,2) bg show ?thesis
    by (simp add: filterData_def reconstruct_anomaly_def)
qed

text \<open>
  C1, as amended. On the path \<^verbatim>\<open>main\<close> invokes, \<^verbatim>\<open>filterData_250\<close>, a climatology that can be
  broadcast gives a result, and the arrays ivt\_rec and ivt\_ano of a result are the same
  field, raw minus the climatological mean, at every grid point. So there ivt\_rec \<open>\<le>\<close> raw
  holds exactly at the points where the mean is not negative, and ivt\_ano = raw - ivt\_rec
  holds exactly at the points where raw is twice the mean. On the path \<^verbatim>\<open>filterData\<close> the
  function returns for every erosion, field and kernel; it returns a decomposition
  whenever the erosion returns a marker of the shape of the field; and in every
  decomposition it returns, the background is at most raw and the anomaly is raw minus
  the background at every grid point.
\<close>

theorem decomposition_paths:
  "(list_all (\<lambda>s. broadcastable s ivt_mean) ivt \<longrightarrow>
      (\<exists>a. filterData_250 ivt ivt_mean = Inr (ivt, a, a)))
   \<and> (filterData_250 ivt ivt_mean = Inr (raw, bg, ano) \<longrightarrow>
      raw = ivt \<and> bg = ano \<and>
      (\<forall>t y x. in_field ivt t y x \<longrightarrow>
         ano ! t ! y ! x = ivt ! t ! y ! x - mean_at ivt_mean y x \<and>
         (bg ! t ! y ! x \<le> raw ! t ! y ! x \<longleftrightarrow> 0 \<le> mean_at ivt_mean y x) \<and>
         (ano ! t ! y ! x = raw ! t ! y ! x - bg ! t ! y ! x
            \<longleftrightarrow> ivt ! t ! y ! x = 2 * mean_at ivt_mean y x)))
   \<and> (\<exists>res. filterData erosion ivt kern = Some res)
   \<and> (structuring_element kern = Inr ele \<and> erosion ivt ele = Inr lm
        \<and> map (map length) lm = map (map length) ivt \<longrightarrow>
      (\<exists>b a. filterData erosion ivt kern = Some (Inr (ivt, b, a))))
   \<and> (filterData erosion ivt kern = Some (Inr (raw', bg', ano')) \<longrightarrow>
      raw' = ivt \<and>
      (\<forall>t y x. in_field ivt t y x \<longrightarrow>
         bg' ! t ! y ! x \<le> raw' ! t ! y ! x \<and>
         ano' ! t ! y ! x = raw' ! t ! y ! x - bg' ! t ! y ! x))"
proof (intro conjI impI allI)
  assume "list_all (\<lambda>s. broadcastable s ivt_mean) ivt"
  then show "\<exists>a. filterData_250 ivt ivt_mean = Inr (ivt, a, a)"
    by (rule filterData_250_returns)
next
  assume run: "filterData_250 ivt ivt_mean = Inr (raw, bg, ano)"
  show "raw = ivt" and "bg = ano"
    using filterData_250_Inr[OF run] by simp_all
  fix t y x
  assume "in_field ivt t y x"
  then have "ano ! t ! y ! x = ivt ! t ! y ! x - mean_at ivt_mean y x"
    using filterData_250_Inr(3)[OF run] by (simp add: sub_clim_Inr(2))
  moreover have "raw = ivt" and "bg = ano"
    using filterData_250_Inr[OF run] by simp_all
  ultimately show "ano ! t ! y ! x = ivt ! t ! y ! x - mean_at ivt_mean y x"
    and "bg ! t ! y ! x \<le> raw ! t ! y ! x \<longleftrightarrow> 0 \<le> mean_at ivt_mean y x"
    and "ano ! t ! y ! x = raw ! t ! y ! x - bg ! t ! y ! x
            \<longleftrightarrow> ivt ! t ! y ! x = 2 * mean_at ivt_mean y x"
    by auto
next
  show "\<exists>res. filterData erosion ivt kern = Some res"
    by (rule filterData_returns)
next
  assume "structuring_element kern = Inr ele \<and> erosion ivt ele = Inr lm
        \<and> map (map length) lm = map (map length) ivt"
  then show "\<exists>b a. filterData erosion ivt kern = Some (Inr (ivt, b, a))"
    using filterData_decomposes by blast
next
  assume run: "filterData erosion ivt kern = Some (Inr (raw', bg', ano'))"
  show raw: "raw' = ivt"
    using filterData_Inr(1)[OF run] .
  fix t y x
  assume inside: "in_field ivt t y x"
  from filterData_Inr(2)[OF run] obtain lm where "reconstruction lm ivt = Some (Inr bg')"
    by blast
  from reconstruction_Inr(2)[OF this inside] raw show "bg' ! t ! y ! x \<le> raw' ! t ! y ! x"
    by simp
  from sub_field_Inr(2)[OF filterData_Inr(3)[OF run] inside] raw
  show "ano' ! t ! y ! x = raw' ! t ! y ! x - bg' ! t ! y ! x"
    by simp
qed

text \<open>
  The theorem at a field of two time steps on a 2 by 2 grid: the climatology path, and
  the reconstruction path with an erosion that lowers every value by one, where the
  reconstruction stops after one step at the raw field with its largest value cut to 9.
\<close>

theorem decomposition_paths_witness:
  "list_all (\<lambda>s. broadcastable s [[1, 2], [3, 4]]) [[[3, 4], [5, 6]], [[7, 8], [9, 10]]]
   \<and> filterData_250 [[[3, 4], [5, 6]], [[7, 8], [9, 10]]] [[1, 2], [3, 4]]
     = Inr ([[[3, 4], [5, 6]], [[7, 8], [9, 10]]],
            [[[2, 2], [2, 2]], [[6, 6], [6, 6]]], [[[2, 2], [2, 2]], [[6, 6], [6, 6]]])
   \<and> in_field [[[3, 4], [5, 6]], [[7, 8], [9, 10]]] 1 0 1
   \<and> [[[2, 2], [2, 2]], [[6, 6], [6, 6]]] ! 1 ! 0 ! 1
       = [[[3, 4], [5, 6]], [[7, 8], [9, 10]]] ! 1 ! 0 ! 1 - mean_at [[1, 2], [3, 4]] 0 1
   \<and> filterData (\<lambda>f ele. Inr (map (map (map (\<lambda>v. v - 1))) f))
        [[[3, 4], [5, 6]], [[7, 8], [9, 10]]] [1, 1, 1]
     = Some (Inr ([[[3, 4], [5, 6]], [[7, 8], [9, 10]]],
            [[[3, 4], [5, 6]], [[7, 8], [9, 9]]], [[[0, 0], [0, 0]], [[0, 0], [0, 1]]]))
   \<and> [[[3, 4], [5, 6]], [[7, 8], [9, 9]]] ! 1 ! 1 ! 1
       \<le> [[[3, 4], [5, 6]], [[7, 8], [9, 10 :: real]]] ! 1 ! 1 ! 1
   \<and> [[[0, 0], [0, 0]], [[0, 0], [0, 1]]] ! 1 ! 1 ! 1
       = [[[3, 4], [5, 6]], [[7, 8], [9, 10]]] ! 1 ! 1 ! 1
           - [[[3, 4], [5, 6]], [[7, 8], [9, 9 :: real]]] ! 1 ! 1 ! 1"
proof -
  let ?ivt = "[[[3, 4], [5, 6]], [[7, 8], [9, 10]]] :: field3d"
  let ?mean = "[[1, 2], [3, 4]] :: slab"
  let ?ano = "[[[2, 2], [2, 2]], [[6, 6], [6, 6]]] :: field3d"
  let ?lm = "[[[2, 3], [4, 5]], [[6, 7], [8, 9]]] :: field3d"
  let ?bg = "[[[3, 4], [5, 6]], [[7, 8], [9, 9]]] :: field3d"
  let ?ano' = "[[[0, 0], [0, 0]], [[0, 0], [0, 1]]] :: field3d"
  let ?ero = "\<lambda>(f :: field3d) (ele :: selem).
    (Inr (map (map (map (\<lambda>v. v - 1))) f) :: pyerror + field3d)"
  have fit: "list_all (\<lambda>s. broadcastable s ?mean) ?ivt"
    by (simp add: broadcastable_def fits_def stretched_def)
  have run: "filterData_250 ?ivt ?mean = Inr (?ivt, ?ano, ?ano)"
    by (simp add: filterData_250_def sub_clim_def broadcastable_def fits_def stretched_def
        mean_at_def)
  have inside: "in_field ?ivt 1 0 1" and inside': "in_field ?ivt 1 1 1"
    by (simp_all add: in_field_def)
  have se: "structuring_element [1, 1, 1] = Inr (get3DEllipse 1 1 1)"
    by (simp add: structuring_element_def)
  have step1: "reconstruction_step ?ivt ?lm = ?bg"
    by (simp add: reconstruction_step_def clip_def dilate_def neighbours_def)
  have step2: "reconstruction_step ?ivt ?bg = ?bg"
    by (simp add: reconstruction_step_def clip_def dilate_def neighbours_def)
  have loop: "while_option (\<lambda>marker. reconstruction_step ?ivt marker \<noteq> marker)
                (reconstruction_step ?ivt) ?lm = Some ?bg"
    by (subst while_option_unfold, simp add: step1, subst while_option_unfold, simp add: step2)
  have rec: "reconstruction ?lm ?ivt = Some (Inr ?bg)"
    by (simp add: reconstruction_def loop)
  have sub: "sub_field ?ivt ?bg = Inr ?ano'"
    by (simp add: sub_field_def sub_slab_def)
  have run': "filterData ?ero ?ivt [1, 1, 1] = Some (Inr (?ivt, ?bg, ?ano'))"
    by (simp add: filterData_def reconstruct_anomaly_def se rec sub)
  note paths = decomposition_paths[of ?mean ?ivt ?ivt ?ano ?ano ?ero "[1, 1, 1]"
      "get3DEllipse 1 1 1" ?lm ?ivt ?bg ?ano']
  from paths run inside have a: "?ano ! 1 ! 0 ! 1 = ?ivt ! 1 ! 0 ! 1 - mean_at ?mean 0 1"
    by blast
  from paths run' inside' have b: "?bg ! 1 ! 1 ! 1 \<le> ?ivt ! 1 ! 1 ! 1"
    and c: "?ano' ! 1 ! 1 ! 1 = ?ivt ! 1 ! 1 ! 1 - ?bg ! 1 ! 1 ! 1"
    by blast+
  from fit run inside a run' b c show ?thesis
    by blast
qed

text \<open>
  The claim as stated fails on the climatology path. With raw 3 at every point, ivt\_rec
  and ivt\_ano are both 2 where the mean is 1, and raw - ivt\_rec is 1; where the mean is
  -1, ivt\_rec is 4 and exceeds raw.
\<close>

theorem decomposition_counterexample:
  "filterData_250 [[[3, 3], [3, 3]], [[3, 3], [3, 3]]] [[1, - 1], [1, 1]]
     = Inr ([[[3, 3], [3, 3]], [[3, 3], [3, 3]]],
            [[[2, 4], [2, 2]], [[2, 4], [2, 2]]], [[[2, 4], [2, 2]], [[2, 4], [2, 2]]])
   \<and> [[[2, 4], [2, 2]], [[2, 4], [2, 2]]] ! 0 ! 0 ! 0
       \<noteq> [[[3, 3], [3, 3]], [[3, 3], [3, 3]]] ! 0 ! 0 ! 0
           - [[[2, 4], [2, 2]], [[2, 4], [2, 2 :: real]]] ! 0 ! 0 ! 0
   \<and> \<not> [[[2, 4], [2, 2]], [[2, 4], [2, 2]]] ! 0 ! 0 ! 1
         \<le> [[[3, 3], [3, 3]], [[3, 3], [3, 3 :: real]]] ! 0 ! 0 ! 1"
  by (simp add: filterData_250_def sub_clim_def broadcastable_def fits_def stretched_def
      mean_at_def)

text \<open>
  C2, as amended. On the path \<^verbatim>\<open>main\<close> invokes, the anomaly ivt\_ano at a grid point is the
  raw value minus the climatological mean that meets the point, and so is non-negative
  exactly when the raw value there is at least that mean.
\<close>

theorem anomaly_250_sign:
  assumes "filterData_250 ivt ivt_mean = Inr (raw, bg, ano)" and "in_field ivt t y x"
  shows "ano ! t ! y ! x = ivt ! t ! y ! x - mean_at ivt_mean y x
         \<and> (0 \<le> ano ! t ! y ! x \<longleftrightarrow> mean_at ivt_mean y x \<le> ivt ! t ! y ! x)"
proof -
  from assms(2) have "ano ! t ! y ! x = ivt ! t ! y ! x - mean_at ivt_mean y x"
    using filterData_250_Inr(3)[OF assms(1)] by (simp add: sub_clim_Inr(2))
  then show ?thesis
    by simp
qed

text \<open>
  The theorem at a climatology of one row, which is stretched along the latitudes.
\<close>

theorem anomaly_250_sign_witness:
  "filterData_250 [[[3, 4], [5, 6]], [[7, 8], [9, 10]]] [[1, 9]]
     = Inr ([[[3, 4], [5, 6]], [[7, 8], [9, 10]]],
            [[[2, - 5], [4, - 3]], [[6, - 1], [8, 1]]], [[[2, - 5], [4, - 3]], [[6, - 1], [8, 1]]])
   \<and> in_field [[[3, 4], [5, 6]], [[7, 8], [9, 10]]] 1 1 1
   \<and> mean_at [[1, 9]] 1 1 = 9
   \<and> [[[2, - 5], [4, - 3]], [[6, - 1], [8, 1]]] ! 1 ! 1 ! 1
       = [[[3, 4], [5, 6]], [[7, 8], [9, 10]]] ! 1 ! 1 ! 1 - mean_at [[1, 9]] 1 1
   \<and> ((0::real) \<le> [[[2, - 5], [4, - 3]], [[6, - 1], [8, 1]]] ! 1 ! 1 ! 1
        \<longleftrightarrow> mean_at [[1, 9]] 1 1 \<le> [[[3, 4], [5, 6]], [[7, 8], [9, 10]]] ! 1 ! 1 ! 1)"
proof -
  let ?ivt = "[[[3, 4], [5, 6]], [[7, 8], [9, 10]]] :: field3d"
  let ?mean = "[[1, 9]] :: slab"
  let ?ano = "[[[2, - 5], [4, - 3]], [[6, - 1], [8, 1]]] :: field3d"
  have run: "filterData_250 ?ivt ?mean = Inr (?ivt, ?ano, ?ano)"
    by (simp add: filterData_250_def sub_clim_def broadcastable_def fits_def stretched_def
        mean_at_def)
  have inside: "in_field ?ivt 1 1 1"
    by (simp add: in_field_def)
  have mean: "mean_at ?mean 1 1 = 9"
    by (simp add: mean_at_def stretched_def)
  from anomaly_250_sign[OF run inside] run inside mean show ?thesis
    by blast
qed

text \<open>
  The claim as stated fails: with raw 1 and mean 3 at every point the anomaly is -2.
\<close>

theorem anomaly_250_counterexample:
  "filterData_250 [[[1, 1], [1, 1]], [[1, 1], [1, 1]]] [[3, 3], [3, 3]]
     = Inr ([[[1, 1], [1, 1]], [[1, 1], [1, 1]]],
            [[[- 2, - 2], [- 2, - 2]], [[- 2, - 2], [- 2, - 2]]],
            [[[- 2, - 2], [- 2, - 2]], [[- 2, - 2], [- 2, - 2]]])
   \<and> [[[- 2, - 2], [- 2, - 2]], [[- 2, - 2], [- 2, - 2 :: real]]] ! 0 ! 0 ! 0 < 0"
  by (simp add: filterData_250_def sub_clim_def broadcastable_def fits_def stretched_def
      mean_at_def)

section \<open>The IVT magnitude\<close>

text \<open>
  C8. For two flux fields of one shape, \<^verbatim>\<open>main\<close> of compute\_ivt.py returns a field of that
  shape whose value at every grid point is the square root of the sum of the squares of
  the two components there, and is not negative.
\<close>

theorem ivt_magnitude:
  assumes "map (map length) uflux = map (map length) vflux"
  shows "\<exists>ivtdata. compute_ivt_main uflux vflux = Inr ivtdata \<and>
           map (map length) ivtdata = map (map length) uflux \<and>
           (\<forall>t y x. in_field uflux t y x \<longrightarrow>
              ivtdata ! t ! y ! x = sqrt ((uflux ! t ! y ! x)\<^sup>2 + (vflux ! t ! y ! x)\<^sup>2) \<and>
              0 \<le> ivtdata ! t ! y ! x)"
proof (intro exI conjI allI impI)
  show "compute_ivt_main uflux vflux
          = Inr (map2 (map2 (map2 (\<lambda>u v. sqrt (u\<^sup>2 + v\<^sup>2)))) uflux vflux)"
    using assms by (simp add: compute_ivt_main_def)
  show "map (map length) (map2 (map2 (map2 (\<lambda>u v. sqrt (u\<^sup>2 + v\<^sup>2)))) uflux vflux)
          = map (map length) uflux"
    using assms by (rule map2_field_shape)
  fix t y x
  assume inside: "in_field uflux t y x"
  show eq: "map2 (map2 (map2 (\<lambda>u v. sqrt (u\<^sup>2 + v\<^sup>2)))) uflux vflux ! t ! y ! x
          = sqrt ((uflux ! t ! y ! x)\<^sup>2 + (vflux ! t ! y ! x)\<^sup>2)"
    using assms inside by (rule map2_field_nth)
  show "0 \<le> map2 (map2 (map2 (\<lambda>u v. sqrt (u\<^sup>2 + v\<^sup>2)))) uflux vflux ! t ! y ! x"
    unfolding eq by simp
qed

text \<open>The theorem at components 3 and 4, where the magnitude is 5.\<close>

theorem ivt_magnitude_witness:
  "map (map length) [[[3, 0], [1, 2]], [[5, 6], [7, 8 :: real]]]
     = map (map length) [[[4, 0], [1, 2]], [[5, 6], [7, 8 :: real]]]
   \<and> in_field [[[3, 0], [1, 2]], [[5, 6], [7, 8]]] 0 0 0
   \<and> (\<exists>ivtdata. compute_ivt_main [[[3, 0], [1, 2]], [[5, 6], [7, 8]]]
                     [[[4, 0], [1, 2]], [[5, 6], [7, 8]]] = Inr ivtdata
        \<and> ivtdata ! 0 ! 0 ! 0 = 5 \<and> 0 \<le> ivtdata ! 0 ! 0 ! 0)"
proof -
  let ?u = "[[[3, 0], [1, 2]], [[5, 6], [7, 8]]] :: field3d"
  let ?v = "[[[4, 0], [1, 2]], [[5, 6], [7, 8]]] :: field3d"
  have shp: "map (map length) ?u = map (map length) ?v"
    by simp
  have inside: "in_field ?u 0 0 0"
    by (simp add: in_field_def)
  have five: "sqrt ((?u ! 0 ! 0 ! 0)\<^sup>2 + (?v ! 0 ! 0 ! 0)\<^sup>2) = 5"
    by (simp add: real_sqrt_unique)
  from ivt_magnitude[OF shp] obtain d where d: "compute_ivt_main ?u ?v = Inr d"
    and pt: "\<forall>t y x. in_field ?u t y x \<longrightarrow>
              d ! t ! y ! x = sqrt ((?u ! t ! y ! x)\<^sup>2 + (?v ! t ! y ! x)\<^sup>2) \<and> 0 \<le> d ! t ! y ! x"
    by blast
  from pt inside have "d ! 0 ! 0 ! 0 = sqrt ((?u ! 0 ! 0 ! 0)\<^sup>2 + (?v ! 0 ! 0 ! 0)\<^sup>2)"
    and "0 \<le> d ! 0 ! 0 ! 0"
    by blast+
  with five d shp inside show ?thesis
    by metis
qed

section \<open>The structuring element\<close>

lemma get3DEllipse_shape:
  "length (get3DEllipse t y x) = nat (2 * t + 1)"
  "k < nat (2 * t + 1) \<Longrightarrow> length (get3DEllipse t y x ! k) = nat (2 * y + 1)"
  "k < nat (2 * t + 1) \<Longrightarrow> j < nat (2 * y + 1) \<Longrightarrow>
     length (get3DEllipse t y x ! k ! j) = nat (2 * x + 1)"
  by (simp_all add: get3DEllipse_def)

lemma upto_centred_nth:
  assumes "\<bar>d\<bar> \<le> h"
  shows "[- h..h] ! nat (d + h) = d" and "nat (d + h) < length [- h..h]"
proof -
  from assms have lo: "0 \<le> d + h" and hi: "d \<le> h"
    by linarith+
  from lo hi have "- h + int (nat (d + h)) \<le> h"
    by simp
  then have "[- h..h] ! nat (d + h) = - h + int (nat (d + h))"
    by (rule nth_upto)
  with lo show "[- h..h] ! nat (d + h) = d"
    by simp
  from lo hi show "nat (d + h) < length [- h..h]"
    by simp
qed

lemma get3DEllipse_nth:
  assumes "\<bar>dt\<bar> \<le> t" and "\<bar>dy\<bar> \<le> y" and "\<bar>dx\<bar> \<le> x"
  shows "get3DEllipse t y x ! nat (dt + t) ! nat (dy + y) ! nat (dx + x)
           = in_ellipsoid t y x dt dy dx"
  using upto_centred_nth[OF assms(1)] upto_centred_nth[OF assms(2)] upto_centred_nth[OF assms(3)]
  by (simp add: get3DEllipse_def)

lemma ones_like_nth:
  assumes "k < length ele" and "j < length (ele ! k)" and "i < length (ele ! k ! j)"
  shows "ones_like ele ! k ! j ! i"
  using assms by (simp add: ones_like_def)

lemma ones_like_shape:
  "length (ones_like ele) = length ele"
  "k < length ele \<Longrightarrow> length (ones_like ele ! k) = length (ele ! k)"
  "k < length ele \<Longrightarrow> j < length (ele ! k) \<Longrightarrow> length (ones_like ele ! k ! j) = length (ele ! k ! j)"
  by (simp_all add: ones_like_def)

text \<open>
  C5. For positive half-extents (t, y, x), \<^verbatim>\<open>filterData\<close> calls the erosion with the field and
  an element that is a mask over the box of offsets \<open>[-t..t] \<times> [-y..y] \<times> [-x..x]\<close>, and goes
  on with what the erosion returns for them. When \<open>t \<ge> 10\<close> or \<open>y \<ge> 6\<close> every offset of the
  box belongs to the element; otherwise an offset belongs to it exactly when it satisfies
  the ellipsoid inequality for the half-extents.
\<close>

theorem structuring_element_mask:
  assumes "0 < t" and "0 < y" and "0 < x"
  shows "\<exists>ele. structuring_element [t, y, x] = Inr ele \<and>
           filterData erosion ivt [t, y, x]
             = (case erosion ivt ele of
                  Inl e \<Rightarrow> Some (Inl e)
                | Inr lm \<Rightarrow> reconstruct_anomaly ivt lm) \<and>
           length ele = nat (2 * t + 1) \<and>
           (\<forall>dt dy dx. \<bar>dt\<bar> \<le> t \<and> \<bar>dy\<bar> \<le> y \<and> \<bar>dx\<bar> \<le> x \<longrightarrow>
              length (ele ! nat (dt + t)) = nat (2 * y + 1) \<and>
              length (ele ! nat (dt + t) ! nat (dy + y)) = nat (2 * x + 1) \<and>
              (ele ! nat (dt + t) ! nat (dy + y) ! nat (dx + x) \<longleftrightarrow>
                 10 \<le> t \<or> 6 \<le> y \<or>
                 (real_of_int dt / real_of_int t)\<^sup>2 + (real_of_int dy / real_of_int y)\<^sup>2
                   + (real_of_int dx / real_of_int x)\<^sup>2 \<le> 1))"
proof (cases "10 \<le> t \<or> 6 \<le> y")
  case True
  let ?ell = "get3DEllipse t y x"
  have run: "structuring_element [t, y, x] = Inr (ones_like ?ell)"
    using True by (simp add: structuring_element_def)
  then have hands: "filterData erosion ivt [t, y, x]
             = (case erosion ivt (ones_like ?ell) of
                  Inl e \<Rightarrow> Some (Inl e)
                | Inr lm \<Rightarrow> reconstruct_anomaly ivt lm)"
    by (simp add: filterData_def)
  have "\<forall>dt dy dx. \<bar>dt\<bar> \<le> t \<and> \<bar>dy\<bar> \<le> y \<and> \<bar>dx\<bar> \<le> x \<longrightarrow>
          length (ones_like ?ell ! nat (dt + t)) = nat (2 * y + 1) \<and>
          length (ones_like ?ell ! nat (dt + t) ! nat (dy + y)) = nat (2 * x + 1) \<and>
          ones_like ?ell ! nat (dt + t) ! nat (dy + y) ! nat (dx + x)"
  proof (intro allI impI)
    fix dt dy dx
    assume box: "\<bar>dt\<bar> \<le> t \<and> \<bar>dy\<bar> \<le> y \<and> \<bar>dx\<bar> \<le> x"
    then have k: "nat (dt + t) < nat (2 * t + 1)" and j: "nat (dy + y) < nat (2 * y + 1)"
      and i: "nat (dx + x) < nat (2 * x + 1)"
      by auto
    show "length (ones_like ?ell ! nat (dt + t)) = nat (2 * y + 1) \<and>
          length (ones_like ?ell ! nat (dt + t) ! nat (dy + y)) = nat (2 * x + 1) \<and>
          ones_like ?ell ! nat (dt + t) ! nat (dy + y) ! nat (dx + x)"
      using k j i by (simp add: ones_like_shape ones_like_nth get3DEllipse_shape)
  qed
  moreover have "length (ones_like ?ell) = nat (2 * t + 1)"
    by (simp add: ones_like_shape get3DEllipse_shape)
  ultimately show ?thesis
    using run hands True by auto
next
  case False
  let ?ell = "get3DEllipse t y x"
  have run: "structuring_element [t, y, x] = Inr ?ell"
    using False by (simp add: structuring_element_def)
  then have hands: "filterData erosion ivt [t, y, x]
             = (case erosion ivt ?ell of
                  Inl e \<Rightarrow> Some (Inl e)
                | Inr lm \<Rightarrow> reconstruct_anomaly ivt lm)"
    by (simp add: filterData_def)
  have "\<forall>dt dy dx. \<bar>dt\<bar> \<le> t \<and> \<bar>dy\<bar> \<le> y \<and> \<bar>dx\<bar> \<le> x \<longrightarrow>
          length (?ell ! nat (dt + t)) = nat (2 * y + 1) \<and>
          length (?ell ! nat (dt + t) ! nat (dy + y)) = nat (2 * x + 1) \<and>
          (?ell ! nat (dt + t) ! nat (dy + y) ! nat (dx + x) \<longleftrightarrow> in_ellipsoid t y x dt dy dx)"
  proof (intro allI impI)
    fix dt dy dx
    assume box: "\<bar>dt\<bar> \<le> t \<and> \<bar>dy\<bar> \<le> y \<and> \<bar>dx\<bar> \<le> x"
    then have k: "nat (dt + t) < nat (2 * t + 1)" and j: "nat (dy + y) < nat (2 * y + 1)"
      by auto
    show "length (?ell ! nat (dt + t)) = nat (2 * y + 1) \<and>
          length (?ell ! nat (dt + t) ! nat (dy + y)) = nat (2 * x + 1) \<and>
          (?ell ! nat (dt + t) ! nat (dy + y) ! nat (dx + x) \<longleftrightarrow> in_ellipsoid t y x dt dy dx)"
      using k j box by (simp add: get3DEllipse_shape get3DEllipse_nth)
  qed
  moreover have "length ?ell = nat (2 * t + 1)"
    by (simp add: get3DEllipse_shape)
  ultimately show ?thesis
    using run hands False by (auto simp: in_ellipsoid_def)
qed

text \<open>
  The theorem at half-extents (1, 1, 1), where the offset (0, 0, 1) is inside the
  ellipsoid and (1, 1, 0) is not, with an erosion that raises unless the element it is
  given has these two entries; and at (10, 1, 1), where the full box is used.
\<close>

theorem structuring_element_mask_witness:
  "(0::int) < 1 \<and>
   (\<exists>ele. structuring_element [1, 1, 1] = Inr ele \<and> length ele = 3 \<and>
      ele ! 1 ! 1 ! 2 \<and> \<not> ele ! 2 ! 2 ! 1 \<and>
      filterData (\<lambda>f el. if el ! 1 ! 1 ! 2 \<and> \<not> el ! 2 ! 2 ! 1 then Inr f else Inl TypeError)
          [[[3, 4], [5, 6]], [[7, 8], [9, 10]]] [1, 1, 1]
        = reconstruct_anomaly [[[3, 4], [5, 6]], [[7, 8], [9, 10]]]
            [[[3, 4], [5, 6]], [[7, 8], [9, 10]]])
   \<and> (\<exists>ele. structuring_element [10, 1, 1] = Inr ele \<and> length ele = 21 \<and> ele ! 11 ! 2 ! 1)"
proof -
  let ?ivt = "[[[3, 4], [5, 6]], [[7, 8], [9, 10]]] :: field3d"
  let ?ero = "\<lambda>(f :: field3d) (el :: selem).
    if el ! 1 ! 1 ! 2 \<and> \<not> el ! 2 ! 2 ! 1 then Inr f else (Inl TypeError :: pyerror + field3d)"
  have pos: "(0::int) < 1" "(0::int) < 10"
    by simp_all
  from structuring_element_mask[OF pos(1) pos(1) pos(1), of ?ero ?ivt] obtain ele where
    run: "structuring_element [1, 1, 1] = Inr ele" and len: "length ele = nat (2 * 1 + 1)"
    and hands: "filterData ?ero ?ivt [1, 1, 1]
             = (case ?ero ?ivt ele of
                  Inl e \<Rightarrow> Some (Inl e)
                | Inr lm \<Rightarrow> reconstruct_anomaly ?ivt lm)"
    and pts: "\<forall>dt dy dx. \<bar>dt\<bar> \<le> 1 \<and> \<bar>dy\<bar> \<le> 1 \<and> \<bar>dx\<bar> \<le> 1 \<longrightarrow>
              length (ele ! nat (dt + 1)) = nat (2 * 1 + 1) \<and>
              length (ele ! nat (dt + 1) ! nat (dy + 1)) = nat (2 * 1 + 1) \<and>
              (ele ! nat (dt + 1) ! nat (dy + 1) ! nat (dx + 1) \<longleftrightarrow>
                 (10::int) \<le> 1 \<or> (6::int) \<le> 1 \<or>
                 (real_of_int dt / real_of_int 1)\<^sup>2 + (real_of_int dy / real_of_int 1)\<^sup>2
                   + (real_of_int dx / real_of_int 1)\<^sup>2 \<le> 1)"
    by blast
  from pts[rule_format, of 0 0 1] have a: "ele ! 1 ! 1 ! 2"
    by simp
  from pts[rule_format, of 1 1 0] have b: "\<not> ele ! 2 ! 2 ! 1"
    by simp
  from hands a b have handed: "filterData ?ero ?ivt [1, 1, 1] = reconstruct_anomaly ?ivt ?ivt"
    by simp
  from structuring_element_mask[OF pos(2) pos(1) pos(1), of ?ero ?ivt] obtain cube where
    run': "structuring_element [10, 1, 1] = Inr cube" and len': "length cube = nat (2 * 10 + 1)"
    and pts': "\<forall>dt dy dx. \<bar>dt\<bar> \<le> 10 \<and> \<bar>dy\<bar> \<le> 1 \<and> \<bar>dx\<bar> \<le> 1 \<longrightarrow>
              length (cube ! nat (dt + 10)) = nat (2 * 1 + 1) \<and>
              length (cube ! nat (dt + 10) ! nat (dy + 1)) = nat (2 * 1 + 1) \<and>
              (cube ! nat (dt + 10) ! nat (dy + 1) ! nat (dx + 1) \<longleftrightarrow>
                 (10::int) \<le> 10 \<or> (6::int) \<le> 1 \<or>
                 (real_of_int dt / real_of_int 10)\<^sup>2 + (real_of_int dy / real_of_int 1)\<^sup>2
                   + (real_of_int dx / real_of_int 1)\<^sup>2 \<le> 1)"
    by blast
  from pts'[rule_format, of 1 1 0] have c: "cube ! 11 ! 2 ! 1"
    by simp
  from run len a b handed have "\<exists>ele. structuring_element [1, 1, 1] = Inr ele \<and> length ele = 3 \<and>
      ele ! 1 ! 1 ! 2 \<and> \<not> ele ! 2 ! 2 ! 1 \<and>
      filterData ?ero ?ivt [1, 1, 1] = reconstruct_anomaly ?ivt ?ivt"
    by auto
  moreover from run' len' c
  have "\<exists>ele. structuring_element [10, 1, 1] = Inr ele \<and> length ele = 21 \<and> ele ! 11 ! 2 ! 1"
    by auto
  ultimately show ?thesis
    by simp
qed

text \<open>The kernel the script configures has one entry, so \<^verbatim>\<open>filterData\<close> would raise on it.\<close>

lemma configured_kernel: "structuring_element KERNEL = Inl TypeError"
  by (simp add: structuring_element_def KERNEL_def)

section \<open>The track filter\<close>

text \<open>
  C4. A track of the list is kept by the filter if and only if its duration is at least
  min\_duration and its count of non-relaxed members is at least min\_nonrelax. So a track
  of the list whose duration is exactly min\_duration is kept when it has enough
  non-relaxed members, and a track one hour shorter is dropped. \<^verbatim>\<open>main\<close> of trace\_ARs.py
  filters with 24 hours and 2 members.
\<close>

theorem track_filter_keep:
  "(tr \<in> set (filterTracks track_list min_duration min_nonrelax) \<longleftrightarrow>
      tr \<in> set track_list \<and> min_duration \<le> duration tr \<and> min_nonrelax \<le> nonrelax_count tr)
   \<and> (tr \<in> set track_list \<and> duration tr = min_duration \<and> min_nonrelax \<le> nonrelax_count tr \<longrightarrow>
        tr \<in> set (filterTracks track_list min_duration min_nonrelax))
   \<and> (duration tr = min_duration - 1 \<longrightarrow>
        tr \<notin> set (filterTracks track_list min_duration min_nonrelax))
   \<and> (tr \<in> set (main_filter track_list) \<longleftrightarrow>
        tr \<in> set track_list \<and> 24 \<le> duration tr \<and> 2 \<le> nonrelax_count tr)"
  by (simp add: filterTracks_def main_filter_def MIN_DURATION_def MIN_NONRELAX_def)

text \<open>
  The theorem at two tracks of three members, two of them not relaxed: the one lasting
  24 hours is kept, the one lasting 23 hours is dropped.
\<close>

theorem track_filter_keep_witness:
  "Track \<lparr>time = 0, is_relaxed = False\<rparr>
       [\<lparr>time = 6, is_relaxed = True\<rparr>, \<lparr>time = 24, is_relaxed = False\<rparr>]
     \<in> set (main_filter
         [Track \<lparr>time = 0, is_relaxed = False\<rparr>
            [\<lparr>time = 6, is_relaxed = True\<rparr>, \<lparr>time = 23, is_relaxed = False\<rparr>],
          Track \<lparr>time = 0, is_relaxed = False\<rparr>
            [\<lparr>time = 6, is_relaxed = True\<rparr>, \<lparr>time = 24, is_relaxed = False\<rparr>]])
   \<and> Track \<lparr>time = 0, is_relaxed = False\<rparr>
       [\<lparr>time = 6, is_relaxed = True\<rparr>, \<lparr>time = 23, is_relaxed = False\<rparr>]
     \<notin> set (filterTracks
         [Track \<lparr>time = 0, is_relaxed = False\<rparr>
            [\<lparr>time = 6, is_relaxed = True\<rparr>, \<lparr>time = 23, is_relaxed = False\<rparr>],
          Track \<lparr>time = 0, is_relaxed = False\<rparr>
            [\<lparr>time = 6, is_relaxed = True\<rparr>, \<lparr>time = 24, is_relaxed = False\<rparr>]] 24 2)"
proof -
  let ?short = "Track \<lparr>time = 0, is_relaxed = False\<rparr>
            [\<lparr>time = 6, is_relaxed = True\<rparr>, \<lparr>time = 23, is_relaxed = False\<rparr>]"
  let ?day = "Track \<lparr>time = 0, is_relaxed = False\<rparr>
            [\<lparr>time = 6, is_relaxed = True\<rparr>, \<lparr>time = 24, is_relaxed = False\<rparr>]"
  have d: "duration ?day = 24" "duration ?short = 24 - 1"
    by (simp_all add: duration_def)
  have n: "2 \<le> nonrelax_count ?day"
    by (simp add: nonrelax_count_def)
  have m: "?day \<in> set [?short, ?day]"
    by simp
  from track_filter_keep[of ?day "[?short, ?day]" 24 2] d(1) n m
  have "?day \<in> set (main_filter [?short, ?day])"
    by simp
  moreover from track_filter_keep[of ?short "[?short, ?day]" 24 2] d(2)
  have "?short \<notin> set (filterTracks [?short, ?day] 24 2)"
    by blast
  ultimately show ?thesis
    by blast
qed

section \<open>The record file and the label file of a detection run\<close>

lemma to_csv_nonempty: "to_csv dfout result_df \<noteq> []"
  by (simp add: to_csv_def)

lemma headers_to_csv:
  "headers (to_csv dfout result_df) = headers dfout + (if dfout = [] then 1 else 0)"
  by (simp add: to_csv_def headers_def filter_map comp_def)

lemma headers_rows: "headers (f @ map Row rows) = headers f"
  by (simp add: headers_def filter_map comp_def)

lemma save_loop_Cons_csv:
  "csv (fst (save_loop scope out ((tidx, timett, label, result_df) # rest)))
     = (if ''angle'' \<in> set scope \<and> ''cross'' \<in> set scope
        then csv (fst (save_loop scope
               (out\<lparr>csv := to_csv (csv out) result_df,
                    nc := nc out @ [Dims, LabelVar label, OtherVar ''angle'', OtherVar ''cross'']\<rparr>)
               rest))
        else to_csv (csv out) result_df)"
  by (simp add: Let_def)

lemma save_loop_csv:
  "\<exists>rows. csv (fst (save_loop scope out yielded))
     = csv out @ (if csv out = [] \<and> yielded \<noteq> [] then [Header] else []) @ map Row rows"
proof (induction yielded arbitrary: out)
  case Nil
  show ?case
    by (rule exI[of _ "[]"]) simp
next
  case (Cons item rest)
  obtain tidx timett label result_df where item: "item = (tidx, timett, label, result_df)"
    by (cases item)
  let ?head = "if csv out = [] then [Header] else []"
  let ?next = "out\<lparr>csv := to_csv (csv out) result_df,
                   nc := nc out @ [Dims, LabelVar label, OtherVar ''angle'', OtherVar ''cross'']\<rparr>"
  have first: "to_csv (csv out) result_df = csv out @ ?head @ map Row result_df"
    by (simp add: to_csv_def)
  show ?case
  proof (cases "''angle'' \<in> set scope \<and> ''cross'' \<in> set scope")
    case True
    from Cons.IH[of ?next] obtain rows where
      rows: "csv (fst (save_loop scope ?next rest))
          = csv ?next @ (if csv ?next = [] \<and> rest \<noteq> [] then [Header] else []) @ map Row rows"
      by (rule exE)
    have "csv ?next \<noteq> []"
      by (simp add: to_csv_nonempty)
    with rows have "csv (fst (save_loop scope ?next rest))
          = (csv out @ ?head @ map Row result_df) @ map Row rows"
      using first by simp
    then have "csv (fst (save_loop scope out (item # rest)))
          = csv out @ ?head @ map Row (result_df @ rows)"
      unfolding item save_loop_Cons_csv using True by simp
    then show ?thesis
      by (intro exI[of _ "result_df @ rows"]) simp
  next
    case False
    then have "csv (fst (save_loop scope out (item # rest))) = to_csv (csv out) result_df"
      unfolding item save_loop_Cons_csv by (rule if_not_P)
    with first have "csv (fst (save_loop scope out (item # rest)))
          = csv out @ ?head @ map Row result_df"
      by simp
    then show ?thesis
      by (intro exI[of _ result_df]) simp
  qed
qed

text \<open>
  C9. Whatever names are bound, whatever the record file held before the run and
  whatever the generator yields, the run leaves the earlier content in place and appends
  to it the header, exactly when the file was empty and at least one time step was
  written, followed by records only. So the run adds one header to an empty file and
  none to any other. Each single write adds the header exactly when the file is empty
  at that moment, and leaves the file non-empty, so that no later write adds one.
\<close>

theorem csv_header_once:
  "(\<exists>rows. csv (fst (save_loop scope out yielded))
       = csv out @ (if csv out = [] \<and> yielded \<noteq> [] then [Header] else []) @ map Row rows)
   \<and> headers (csv (fst (save_loop scope out yielded)))
       = headers (csv out) + (if csv out = [] \<and> yielded \<noteq> [] then 1 else 0)
   \<and> headers (to_csv dfout result_df) = headers dfout + (if dfout = [] then 1 else 0)
   \<and> to_csv dfout result_df \<noteq> []"
proof (intro conjI)
  show "\<exists>rows. csv (fst (save_loop scope out yielded))
       = csv out @ (if csv out = [] \<and> yielded \<noteq> [] then [Header] else []) @ map Row rows"
    by (rule save_loop_csv)
  from save_loop_csv[of scope out yielded] obtain rows where
    "csv (fst (save_loop scope out yielded))
       = csv out @ (if csv out = [] \<and> yielded \<noteq> [] then [Header] else []) @ map Row rows"
    by (rule exE)
  then have "headers (csv (fst (save_loop scope out yielded)))
       = headers (csv out @ (if csv out = [] \<and> yielded \<noteq> [] then [Header] else []))"
    by (simp only: headers_rows append_assoc[symmetric])
  then show "headers (csv (fst (save_loop scope out yielded)))
       = headers (csv out) + (if csv out = [] \<and> yielded \<noteq> [] then 1 else 0)"
    by (simp add: headers_def)
  show "headers (to_csv dfout result_df) = headers dfout + (if dfout = [] then 1 else 0)"
    by (rule headers_to_csv)
  show "to_csv dfout result_df \<noteq> []"
    by (rule to_csv_nonempty)
qed

lemma angle_unbound: "''angle'' \<notin> set detect_scope"
  by (simp add: detect_scope_def main_locals_def module_globals_def)

text \<open>
  C3. \<^verbatim>\<open>main\<close> reads \<^verbatim>\<open>angle\<close> at line 261, a name that neither the function nor the module
  binds: the generator's items are unpacked into \<^verbatim>\<open>tidx, timett, label, result_df\<close> only.
  So the first time step is written to both files and the run then ends with
  \<^verbatim>\<open>NameError\<close>; the time steps after the first are never written.
\<close>

theorem main_save_stops:
  "main_save out ((tidx, timett, label, result_df) # rest)
     = (out\<lparr>csv := to_csv (csv out) result_df, nc := nc out @ [Dims, LabelVar label]\<rparr>,
        Some (NameError ''angle''))"
  using angle_unbound by (simp add: main_save_def Let_def)

section \<open>The batch drivers\<close>

lemma skip_existing_filter:
  "skip_existing exists expected filelist = filter (\<lambda>f. \<not> exists (expected f)) filelist"
  by (induction filelist) simp_all

lemma pool_map_frame:
  assumes "p \<notin> output ` set work"
  shows "pool_map compute output disk work p = disk p"
  using assms by (induction work arbitrary: disk) (auto split: option.splits)

lemma pool_map_keeps:
  assumes "disk p \<noteq> None"
  shows "pool_map compute output disk work p \<noteq> None"
  using assms by (induction work arbitrary: disk) (auto split: option.splits)

lemma pool_map_writes:
  assumes "f \<in> set work" and "compute f \<noteq> None"
  shows "pool_map compute output disk work (output f) \<noteq> None"
  using assms
proof (induction work arbitrary: disk)
  case Nil
  then show ?case by simp
next
  case (Cons g rest)
  show ?case
  proof (cases "f = g")
    case True
    with Cons.prems(2) obtain c where "compute g = Some c"
      by auto
    then have "pool_map compute output disk (g # rest) = pool_map compute output (disk(output g \<mapsto> c)) rest"
      by simp
    moreover have "(disk(output g \<mapsto> c)) (output f) \<noteq> None"
      using True by simp
    ultimately show ?thesis
      by (simp add: pool_map_keeps)
  next
    case False
    with Cons.prems(1) have "f \<in> set rest"
      by simp
    from Cons.IH[OF this Cons.prems(2)] show ?thesis
      by simp
  qed
qed

lemma csv_slices:
  assumes "ends_with ''.csv'' file"
  shows "slice_from file (- 18) = py_slice file (- 18) (- 4) @ ''.csv''"
proof -
  let ?n = "length file"
  let ?a = "py_index ?n (- 18)"
  let ?b = "py_index ?n (- 4)"
  have four: "length ''.csv'' = 4"
    by simp
  from assms have n: "4 \<le> ?n" and tail: "drop (?n - 4) file = ''.csv''"
    unfolding ends_with_def four by blast+
  from n have b: "?b = ?n - 4" and ab: "?a \<le> ?b"
    by (simp_all add: py_index_def)
  have "drop ?a file = take (?b - ?a) (drop ?a file) @ drop (?b - ?a) (drop ?a file)"
    by (rule append_take_drop_id[symmetric])
  also have "drop (?b - ?a) (drop ?a file) = drop ?b file"
    using ab by simp
  finally show ?thesis
    using b tail by (simp add: slice_from_def py_slice_def)
qed

lemma trace_paths_agree:
  assumes "ends_with ''.csv'' file"
  shows "trace_expected file = trace_output file"
  by (simp add: trace_expected_def trace_output_def csv_slices[OF assms])

lemma anomaly_paths_agree:
  assumes "file \<in> set IVT_FILE"
  shows "anomaly_expected file = anomaly_output file"
proof -
  have "anomaly_expected ''/home/jingzhao/wangbp/era5/ivt_summer_mon/era5_ivt_201108.nc''
      = anomaly_output ''/home/jingzhao/wangbp/era5/ivt_summer_mon/era5_ivt_201108.nc''"
    by (simp add: anomaly_expected_def anomaly_output_def py_slice_def py_index_def basename_def
        splitext_root_def path_join_def)
  moreover have "anomaly_expected ''/home/jingzhao/wangbp/era5/ivt_summer_mon/era5_ivt_201508.nc''
      = anomaly_output ''/home/jingzhao/wangbp/era5/ivt_summer_mon/era5_ivt_201508.nc''"
    by (simp add: anomaly_expected_def anomaly_output_def py_slice_def py_index_def basename_def
        splitext_root_def path_join_def)
  ultimately show ?thesis
    using assms by (auto simp: IVT_FILE_def)
qed

lemma driver_rerun:
  assumes agree: "\<forall>g \<in> set files. expected g = output g"
  shows "f \<in> set (skip_existing (\<lambda>p. disk p \<noteq> None) expected files)
           \<longleftrightarrow> f \<in> set files \<and> disk (output f) = None"
    and "disk p \<noteq> None \<Longrightarrow>
           pool_map compute output disk (skip_existing (\<lambda>p. disk p \<noteq> None) expected files) p = disk p"
    and "f \<in> set (skip_existing
              (\<lambda>p. pool_map compute output disk
                      (skip_existing (\<lambda>p. disk p \<noteq> None) expected files) p \<noteq> None)
              expected files)
           \<Longrightarrow> f \<in> set (skip_existing (\<lambda>p. disk p \<noteq> None) expected files) \<and> compute f = None"
proof -
  let ?work = "skip_existing (\<lambda>p. disk p \<noteq> None) expected files"
  let ?after = "pool_map compute output disk ?work"
  show member: "f \<in> set ?work \<longleftrightarrow> f \<in> set files \<and> disk (output f) = None" for f
    using agree by (auto simp: skip_existing_filter)
  show frame: "?after p = disk p" if "disk p \<noteq> None" for p
  proof (rule pool_map_frame)
    show "p \<notin> output ` set ?work"
      using that member by auto
  qed
  show "f \<in> set ?work \<and> compute f = None"
    if again: "f \<in> set (skip_existing (\<lambda>p. ?after p \<noteq> None) expected files)"
  proof -
    from again agree have f: "f \<in> set files" and absent: "?after (output f) = None"
      by (auto simp: skip_existing_filter)
    have "disk (output f) = None"
    proof (rule ccontr)
      assume "disk (output f) \<noteq> None"
      then have "?after (output f) \<noteq> None"
        by (rule pool_map_keeps)
      with absent show False
        by simp
    qed
    with f have work: "f \<in> set ?work"
      using member by simp
    have "compute f = None"
    proof (rule ccontr)
      assume "compute f \<noteq> None"
      with work have "?after (output f) \<noteq> None"
        by (rule pool_map_writes)
      with absent show False
        by simp
    qed
    with work show ?thesis
      by simp
  qed
qed

text \<open>
  C10. Both drivers leave out of the work list exactly the inputs whose output file
  exists: an input is in the work list if and only if it is an input and the file that
  \<^verbatim>\<open>main\<close> would write for it is absent. The run changes no file that existed before it.
  A second run after the first takes up only inputs that the first run took up and for
  which \<^verbatim>\<open>main\<close> wrote nothing. For trace\_ARs.py the inputs are the paths the pattern
  matches, which end in \<^verbatim>\<open>.csv\<close>; for compute\_ivt-anomaly.py they are the two listed files.
  Only the table and the netCDF file that the driver tests for are files of the model;
  the plots are not.
\<close>

theorem batch_skip_existing:
  "((\<forall>g \<in> set filelist. ends_with ''.csv'' g) \<longrightarrow>
      (f \<in> set (trace_work_list disk filelist)
         \<longleftrightarrow> f \<in> set filelist \<and> disk (trace_output f) = None)
    \<and> (disk p \<noteq> None \<longrightarrow> trace_driver compute disk filelist p = disk p)
    \<and> (f \<in> set (trace_work_list (trace_driver compute disk filelist) filelist) \<longrightarrow>
         f \<in> set (trace_work_list disk filelist) \<and> compute f = None))
   \<and> (f \<in> set (anomaly_work_list disk) \<longleftrightarrow> f \<in> set IVT_FILE \<and> disk (anomaly_output f) = None)
   \<and> (disk p \<noteq> None \<longrightarrow> anomaly_driver compute disk p = disk p)
   \<and> (f \<in> set (anomaly_work_list (anomaly_driver compute disk)) \<longrightarrow>
        f \<in> set (anomaly_work_list disk) \<and> compute f = None)"
proof (intro conjI impI)
  have anomaly: "\<forall>g \<in> set IVT_FILE. anomaly_expected g = anomaly_output g"
    by (simp add: anomaly_paths_agree)
  show "f \<in> set (anomaly_work_list disk) \<longleftrightarrow> f \<in> set IVT_FILE \<and> disk (anomaly_output f) = None"
    unfolding anomaly_work_list_def by (rule driver_rerun(1)[OF anomaly])
  show "anomaly_driver compute disk p = disk p" if "disk p \<noteq> None"
    unfolding anomaly_driver_def anomaly_work_list_def using that by (rule driver_rerun(2)[OF anomaly])
  show "f \<in> set (anomaly_work_list disk)" and "compute f = None"
    if "f \<in> set (anomaly_work_list (anomaly_driver compute disk))"
    using driver_rerun(3)[OF anomaly, of f compute disk] that
    unfolding anomaly_driver_def anomaly_work_list_def by blast+
next
  assume "\<forall>g \<in> set filelist. ends_with ''.csv'' g"
  then have trace: "\<forall>g \<in> set filelist. trace_expected g = trace_output g"
    by (simp add: trace_paths_agree)
  show "f \<in> set (trace_work_list disk filelist) \<longleftrightarrow> f \<in> set filelist \<and> disk (trace_output f) = None"
    unfolding trace_work_list_def by (rule driver_rerun(1)[OF trace])
  show "trace_driver compute disk filelist p = disk p" if "disk p \<noteq> None"
    unfolding trace_driver_def trace_work_list_def using that by (rule driver_rerun(2)[OF trace])
  show "f \<in> set (trace_work_list disk filelist)" and "compute f = None"
    if "f \<in> set (trace_work_list (trace_driver compute disk filelist) filelist)"
    using driver_rerun(3)[OF trace, of f compute disk] that
    unfolding trace_driver_def trace_work_list_def by blast+
qed

text \<open>
  The theorem at two record files, the track table of the first already on disk, and at
  the second listed IVT file, the anomaly file of the first already on disk.
\<close>

theorem batch_skip_existing_witness:
  "ends_with ''.csv'' ''/home/jingzhao/wangbp/era5/AR_TEST/THR/arinfo_250/ar_records_201100.csv''
   \<and> ends_with ''.csv'' ''/home/jingzhao/wangbp/era5/AR_TEST/THR/arinfo_250/ar_records_201200.csv''
   \<and> ''/home/jingzhao/wangbp/era5/AR_TEST/THR/arinfo_250/ar_records_201200.csv''
       \<in> set (trace_work_list
             [''/home/jingzhao/wangbp/era5/AR_TEST/THR/tracks/ar_tracks_records_201100.csv''
                \<mapsto> ''old'']
             [''/home/jingzhao/wangbp/era5/AR_TEST/THR/arinfo_250/ar_records_201100.csv'',
              ''/home/jingzhao/wangbp/era5/AR_TEST/THR/arinfo_250/ar_records_201200.csv''])
   \<and> ''/home/jingzhao/wangbp/era5/AR_TEST/THR/arinfo_250/ar_records_201100.csv''
       \<notin> set (trace_work_list
             [''/home/jingzhao/wangbp/era5/AR_TEST/THR/tracks/ar_tracks_records_201100.csv''
                \<mapsto> ''old'']
             [''/home/jingzhao/wangbp/era5/AR_TEST/THR/arinfo_250/ar_records_201100.csv'',
              ''/home/jingzhao/wangbp/era5/AR_TEST/THR/arinfo_250/ar_records_201200.csv''])
   \<and> trace_driver (\<lambda>f. Some ''new'')
         [''/home/jingzhao/wangbp/era5/AR_TEST/THR/tracks/ar_tracks_records_201100.csv''
            \<mapsto> ''old'']
         [''/home/jingzhao/wangbp/era5/AR_TEST/THR/arinfo_250/ar_records_201100.csv'',
          ''/home/jingzhao/wangbp/era5/AR_TEST/THR/arinfo_250/ar_records_201200.csv'']
         ''/home/jingzhao/wangbp/era5/AR_TEST/THR/tracks/ar_tracks_records_201100.csv''
       = Some ''old''
   \<and> ''/home/jingzhao/wangbp/era5/ivt_summer_mon/era5_ivt_201508.nc''
       \<in> set (anomaly_work_list
             [''/home/jingzhao/wangbp/era5/ivt250_summer_mon/era5_ivt_201108-ano-250.nc''
                \<mapsto> ''old''])"
proof -
  let ?f1 = "''/home/jingzhao/wangbp/era5/AR_TEST/THR/arinfo_250/ar_records_201100.csv''"
  let ?f2 = "''/home/jingzhao/wangbp/era5/AR_TEST/THR/arinfo_250/ar_records_201200.csv''"
  let ?o1 = "''/home/jingzhao/wangbp/era5/AR_TEST/THR/tracks/ar_tracks_records_201100.csv''"
  let ?o2 = "''/home/jingzhao/wangbp/era5/AR_TEST/THR/tracks/ar_tracks_records_201200.csv''"
  let ?disk = "[?o1 \<mapsto> ''old'']"
  let ?g = "''/home/jingzhao/wangbp/era5/ivt_summer_mon/era5_ivt_201508.nc''"
  let ?adisk = "[''/home/jingzhao/wangbp/era5/ivt250_summer_mon/era5_ivt_201108-ano-250.nc''
                \<mapsto> ''old'']"
  have e1: "ends_with ''.csv'' ?f1" and e2: "ends_with ''.csv'' ?f2"
    by (simp_all add: ends_with_def)
  then have ends: "\<forall>g \<in> set [?f1, ?f2]. ends_with ''.csv'' g"
    by simp
  have o1: "trace_output ?f1 = ?o1"
    by (simp add: trace_output_def trace_OUTPUTDIR_def py_slice_def py_index_def path_join_def)
  have o2: "trace_output ?f2 = ?o2"
    by (simp add: trace_output_def trace_OUTPUTDIR_def py_slice_def py_index_def path_join_def)
  have d1: "?disk (trace_output ?f1) \<noteq> None" and d2: "?disk (trace_output ?f2) = None"
    unfolding o1 o2 by simp_all
  have old: "?disk ?o1 \<noteq> None"
    by simp
  have a2: "anomaly_output ?g = ''/home/jingzhao/wangbp/era5/ivt250_summer_mon/era5_ivt_201508-ano-250.nc''"
    by (simp add: anomaly_output_def anomaly_OUTPUTDIR_def basename_def splitext_root_def
        path_join_def)
  have ad: "?adisk (anomaly_output ?g) = None"
    unfolding a2 by simp
  have g: "?g \<in> set IVT_FILE"
    by (simp add: IVT_FILE_def)
  note t2 = batch_skip_existing[where filelist = "[?f1, ?f2]" and f = ?f2 and disk = ?disk
      and p = ?o1 and compute = "\<lambda>f. Some ''new''"]
  note t1 = batch_skip_existing[where filelist = "[?f1, ?f2]" and f = ?f1 and disk = ?disk
      and p = ?o1 and compute = "\<lambda>f. Some ''new''"]
  note t3 = batch_skip_existing[where filelist = "[]" and f = ?g and disk = ?adisk
      and p = ?o1 and compute = "\<lambda>f. Some ''new''"]
  from t2 ends d2 have w2: "?f2 \<in> set (trace_work_list ?disk [?f1, ?f2])"
    by simp
  from t1 ends d1 have w1: "?f1 \<notin> set (trace_work_list ?disk [?f1, ?f2])"
    by blast
  from t2 ends old have keep: "trace_driver (\<lambda>f. Some ''new'') ?disk [?f1, ?f2] ?o1 = ?disk ?o1"
    by blast
  then have keep': "trace_driver (\<lambda>f. Some ''new'') ?disk [?f1, ?f2] ?o1 = Some ''old''"
    by simp
  from t3 g ad have w3: "?g \<in> set (anomaly_work_list ?adisk)"
    by blast
  from e1 e2 w2 w1 keep' w3 show ?thesis
    by blast
qed

section \<open>The shape check of the detection stage\<close>

text \<open>
  The check raises exactly when a flux field is not three-dimensional or the three shapes
  are not all equal. In \<^verbatim>\<open>main\<close> both flux fields are built from the shape of the IVT
  field, so there the check raises exactly when the IVT field is not three-dimensional.
\<close>

lemma shape_check_raises:
  "(\<exists>e. shape_check qu qv ivt = Inl e) \<longleftrightarrow> length qu \<noteq> 3 \<or> length qv \<noteq> 3 \<or> qu \<noteq> qv \<or> ivt \<noteq> qu"
  by (simp add: shape_check_def)

lemma main_shape_check_raises:
  "(\<exists>e. main_shape_check ivt_shape = Inl e) \<longleftrightarrow> length ivt_shape \<noteq> 3"
  by (simp add: main_shape_check_def shape_check_def)

text \<open>
  In a batch, a file for which \<^verbatim>\<open>main\<close> raises writes nothing, and every other file of
  the work list whose \<^verbatim>\<open>main\<close> returns has its output written all the same.
\<close>

lemma pool_map_isolation:
  assumes "g \<in> set work" and "compute g = Some c"
    and "\<forall>f \<in> set work. output f = output g \<longrightarrow> f = g"
  shows "pool_map compute output disk work (output g) = Some c"
  using assms
proof (induction work arbitrary: disk)
  case Nil
  then show ?case by simp
next
  case (Cons f rest)
  show ?case
  proof (cases "g \<in> set rest")
    case True
    with Cons.prems have "pool_map compute output
        (case compute f of None \<Rightarrow> disk | Some c' \<Rightarrow> disk(output f \<mapsto> c')) rest (output g) = Some c"
      by (intro Cons.IH) auto
    then show ?thesis
      by simp
  next
    case False
    with Cons.prems(1) have f: "f = g"
      by simp
    have "output g \<notin> output ` set rest"
      using False Cons.prems(3) by auto
    then have "pool_map compute output (disk(output g \<mapsto> c)) rest (output g)
        = (disk(output g \<mapsto> c)) (output g)"
      by (rule pool_map_frame)
    with f Cons.prems(2) show ?thesis
      by simp
  qed
qed

text \<open>
  C7. \<^verbatim>\<open>main\<close> raises on fields that pass the check: for a three-dimensional IVT field the
  check returns, and as soon as the generator yields a time step the run ends with the
  \<^verbatim>\<open>NameError\<close> of line 261, after the first record and label have been written.
\<close>

theorem detect_main_wellformed_raises:
  "main_shape_check [nt, ny, nx] = Inr ()
   \<and> detect_main [nt, ny, nx] out ((tidx, timett, label, result_df) # rest)
       = (out\<lparr>csv := to_csv (csv out) result_df, nc := nc out @ [Dims, LabelVar label]\<rparr>,
          Some (NameError ''angle''))"
proof -
  have ok: "main_shape_check [nt, ny, nx] = Inr ()"
    by (simp add: main_shape_check_def shape_check_def)
  then show ?thesis
    using angle_unbound by (simp add: detect_main_def main_save_def Let_def)
qed

end
